theory Spec2Isabelle
  imports Main "HOL-Library.Multiset"
begin

section \<open>Data model (parse/models.go)\<close>

text \<open>
  A Go \<open>time.Time\<close> is modelled by the instant it denotes: the number of nanoseconds
  since January 1 of year 1, 00:00:00 UTC, which is the instant \<open>IsZero\<close> tests for.
  \<open>After\<close>, \<open>Before\<close> and \<open>Compare\<close> compare instants.
\<close>

type_synonym Time = int

definition Time_After :: "Time \<Rightarrow> Time \<Rightarrow> bool" where
  "Time_After t u = (u < t)"

definition Time_Before :: "Time \<Rightarrow> Time \<Rightarrow> bool" where
  "Time_Before t u = (t < u)"

definition Time_Compare :: "Time \<Rightarrow> Time \<Rightarrow> int" where
  "Time_Compare t u = (if t < u then - 1 else if u < t then 1 else 0)"

definition Time_IsZero :: "Time \<Rightarrow> bool" where
  "Time_IsZero t = (t = 0)"

text \<open>\<open>SortOrder\<close> is a string type in the source; its eight supported values.\<close>

type_synonym SortOrder = string

definition SortDateCreated :: SortOrder where "SortDateCreated = ''date-created''"
definition SortReverseDateCreated :: SortOrder where "SortReverseDateCreated = ''reverse-date-created''"
definition SortDateUpdated :: SortOrder where "SortDateUpdated = ''date-updated''"
definition SortReverseDateUpdated :: SortOrder where "SortReverseDateUpdated = ''reverse-date-updated''"
definition SortTitle :: SortOrder where "SortTitle = ''title''"
definition SortReverseTitle :: SortOrder where "SortReverseTitle = ''reverse-title''"
definition SortPath :: SortOrder where "SortPath = ''path''"
definition SortReversePath :: SortOrder where "SortReversePath = ''reverse-path''"

text \<open>
  The struct \<open>Article\<close> of parse/models.go, followed by the two fields \<open>BodyContent\<close>
  and \<open>ExternalLink\<close> that \<open>HTMLFile\<close> sets and \<open>BuildShareUrl\<close> reads.
\<close>

record Article =
  Title :: string
  Description :: string
  CoverImage :: string
  Created :: Time
  Updated :: Time
  Tags :: "string list"
  TextContent :: string
  HtmlContent :: string
  OriginalPath :: string
  LinkToSelf :: string
  LinkToSave :: string
  ShareUrl :: string
  CanonicalUrl :: string
  BodyContent :: string
  ExternalLink :: string

text \<open>The zero value \<open>Article{}\<close>.\<close>

definition Article_zero :: Article where
  "Article_zero = \<lparr>Title = [], Description = [], CoverImage = [], Created = 0, Updated = 0,
     Tags = [], TextContent = [], HtmlContent = [], OriginalPath = [], LinkToSelf = [],
     LinkToSave = [], ShareUrl = [], CanonicalUrl = [], BodyContent = [], ExternalLink = []\<rparr>"

section \<open>Go library: string comparison and sorting\<close>

text \<open>Go compares strings byte by byte: \<open>a < b\<close> on strings.\<close>

fun string_less :: "string \<Rightarrow> string \<Rightarrow> bool" where
  "string_less [] [] = False"
| "string_less [] (y # ys) = True"
| "string_less (x # xs) [] = False"
| "string_less (x # xs) (y # ys) =
     ((of_char x :: nat) < of_char y \<or> (x = y \<and> string_less xs ys))"

text \<open>
  \<open>sort.Slice\<close> and \<open>slices.SortFunc\<close> run insertion sort on a slice of fewer than
  twelve elements: for each index \<open>i\<close> from left to right, element \<open>i\<close> is swapped
  with its left neighbour while it is less than that neighbour. \<open>insertLeft\<close> is the
  inner loop; its list argument is the part already sorted, last element first.
  On longer slices the library switches to pattern-defeating quicksort, which returns
  a list sorted by the same comparison but may order equal elements differently;
  the model keeps insertion sort at every length.
\<close>

fun insertLeft :: "('a \<Rightarrow> 'a \<Rightarrow> bool) \<Rightarrow> 'a \<Rightarrow> 'a list \<Rightarrow> 'a list" where
  "insertLeft lt x [] = [x]"
| "insertLeft lt x (y # ys) =
     (if lt x y then y # insertLeft lt x ys else x # y # ys)"

definition insertionSort :: "('a \<Rightarrow> 'a \<Rightarrow> bool) \<Rightarrow> 'a list \<Rightarrow> 'a list" where
  "insertionSort lt xs = rev (foldl (\<lambda>acc x. insertLeft lt x acc) [] xs)"

definition sort_Slice :: "('a \<Rightarrow> 'a \<Rightarrow> bool) \<Rightarrow> 'a list \<Rightarrow> 'a list" where
  "sort_Slice lt xs = insertionSort lt xs"

definition slices_SortFunc :: "('a \<Rightarrow> 'a \<Rightarrow> int) \<Rightarrow> 'a list \<Rightarrow> 'a list" where
  "slices_SortFunc cmp xs = insertionSort (\<lambda>a b. cmp a b < 0) xs"

section \<open>The final collection sort of buildWebsite (main.go)\<close>

text \<open>
  The \<open>switch settings.Sort\<close> of \<open>buildWebsite\<close>. The switch has no default branch:
  any other value leaves the collection in the order the workers appended it.
\<close>

definition sortArticles :: "SortOrder \<Rightarrow> Article list \<Rightarrow> Article list" where
  "sortArticles order articles =
     (if order = SortDateCreated then
        sort_Slice (\<lambda>i j. Time_After (Created i) (Created j)) articles
      else if order = SortReverseDateCreated then
        sort_Slice (\<lambda>i j. Time_Before (Created i) (Created j)) articles
      else if order = SortDateUpdated then
        sort_Slice (\<lambda>i j. Time_After (Updated i) (Updated j)) articles
      else if order = SortReverseDateUpdated then
        sort_Slice (\<lambda>i j. Time_Before (Updated i) (Updated j)) articles
      else if order = SortTitle then
        sort_Slice (\<lambda>i j. string_less (Title i) (Title j)) articles
      else if order = SortReverseTitle then
        sort_Slice (\<lambda>i j. string_less (Title j) (Title i)) articles
      else if order = SortPath then
        sort_Slice (\<lambda>i j. string_less (OriginalPath i) (OriginalPath j)) articles
      else if order = SortReversePath then
        sort_Slice (\<lambda>i j. string_less (OriginalPath j) (OriginalPath i)) articles
      else articles)"


section \<open>Go library: strings\<close>

text \<open>
  A Go string is a sequence of bytes; \<open>string\<close> (a list of 8-bit \<open>char\<close>s) is that
  sequence. Functions of package \<open>strings\<close> that read runes are modelled on the
  UTF-8 bytes of the runes they test for.
\<close>

definition isDigit :: "char \<Rightarrow> bool" where
  "isDigit c = (48 \<le> (of_char c :: nat) \<and> (of_char c :: nat) \<le> 57)"

definition isUpper :: "char \<Rightarrow> bool" where
  "isUpper c = (65 \<le> (of_char c :: nat) \<and> (of_char c :: nat) \<le> 90)"

definition isLower :: "char \<Rightarrow> bool" where
  "isLower c = (97 \<le> (of_char c :: nat) \<and> (of_char c :: nat) \<le> 122)"

definition isAlnum :: "char \<Rightarrow> bool" where
  "isAlnum c = (isDigit c \<or> isUpper c \<or> isLower c)"

definition strings_HasPrefix :: "string \<Rightarrow> string \<Rightarrow> bool" where
  "strings_HasPrefix s p = (take (length p) s = p)"

definition strings_HasSuffix :: "string \<Rightarrow> string \<Rightarrow> bool" where
  "strings_HasSuffix s p = (length p \<le> length s \<and> drop (length s - length p) s = p)"

definition strings_TrimPrefix :: "string \<Rightarrow> string \<Rightarrow> string" where
  "strings_TrimPrefix s p = (if strings_HasPrefix s p then drop (length p) s else s)"

definition strings_TrimSuffix :: "string \<Rightarrow> string \<Rightarrow> string" where
  "strings_TrimSuffix s p = (if strings_HasSuffix s p then take (length s - length p) s else s)"

text \<open>\<open>strings.Contains(s, sub)\<close>: \<open>sub\<close> occurs in \<open>s\<close> at some position.\<close>

fun strings_Contains :: "string \<Rightarrow> string \<Rightarrow> bool" where
  "strings_Contains [] sub = (sub = [])"
| "strings_Contains (c # s) sub = (strings_HasPrefix (c # s) sub \<or> strings_Contains s sub)"

text \<open>\<open>slices.Contains\<close> on a slice of strings.\<close>

definition slices_Contains :: "string list \<Rightarrow> string \<Rightarrow> bool" where
  "slices_Contains xs x = (x \<in> set xs)"

text \<open>
  \<open>strings.Trim(s, cutset)\<close> for a cutset of ASCII bytes (every cutset in the program
  is \<open>"-_ "\<close> or \<open>"-"\<close>): leading and trailing bytes of the cutset are removed.
\<close>

definition strings_Trim :: "string \<Rightarrow> string \<Rightarrow> string" where
  "strings_Trim s cutset =
     rev (dropWhile (\<lambda>c. c \<in> set cutset) (rev (dropWhile (\<lambda>c. c \<in> set cutset) s)))"

text \<open>
  \<open>strings.ReplaceAll(s, old, new)\<close> where \<open>old\<close> is one byte, as at every call in
  \<open>cleanString\<close>.
\<close>

fun strings_ReplaceAll :: "string \<Rightarrow> char \<Rightarrow> string \<Rightarrow> string" where
  "strings_ReplaceAll [] old new = []"
| "strings_ReplaceAll (c # s) old new =
     (if c = old then new @ strings_ReplaceAll s old new else c # strings_ReplaceAll s old new)"

text \<open>\<open>strings.Split(s, sep)\<close> for a one-byte separator: one more piece than separators.\<close>

fun strings_Split :: "string \<Rightarrow> char \<Rightarrow> string list" where
  "strings_Split [] sep = [[]]"
| "strings_Split (c # s) sep =
     (if c = sep then [] # strings_Split s sep
      else (case strings_Split s sep of
              [] \<Rightarrow> [[c]]
            | p # ps \<Rightarrow> (c # p) # ps))"

fun strings_Join :: "string list \<Rightarrow> string \<Rightarrow> string" where
  "strings_Join [] sep = []"
| "strings_Join [p] sep = p"
| "strings_Join (p # q # ps) sep = p @ sep @ strings_Join (q # ps) sep"

text \<open>
  White space as \<open>unicode.IsSpace\<close> defines it: the ASCII bytes tab, newline, vertical
  tab, form feed, carriage return and space, and the runes U+0085, U+00A0, U+1680,
  U+2000 to U+200A, U+2028, U+2029, U+202F, U+205F and U+3000, here by their UTF-8
  encodings. \<open>spaceWidth s\<close> is the length in bytes of the white-space rune at the head
  of \<open>s\<close>, or 0; \<open>spaceWidthEnd s\<close> the same at the end of \<open>s\<close>.
\<close>

definition isAsciiSpace :: "char \<Rightarrow> bool" where
  "isAsciiSpace c = ((9 \<le> (of_char c :: nat) \<and> (of_char c :: nat) \<le> 13) \<or> c = CHR '' '')"

text \<open>An ASCII byte that is not white space.\<close>

definition plainByte :: "char \<Rightarrow> bool" where
  "plainByte c = ((of_char c :: nat) < 128 \<and> \<not> isAsciiSpace c)"

definition unicodeSpaces2 :: "string list" where
  "unicodeSpaces2 = [[CHR 0xC2, CHR 0x85], [CHR 0xC2, CHR 0xA0]]"

definition unicodeSpaces3 :: "string list" where
  "unicodeSpaces3 =
     [[CHR 0xE1, CHR 0x9A, CHR 0x80],
      [CHR 0xE2, CHR 0x80, CHR 0x80], [CHR 0xE2, CHR 0x80, CHR 0x81],
      [CHR 0xE2, CHR 0x80, CHR 0x82], [CHR 0xE2, CHR 0x80, CHR 0x83],
      [CHR 0xE2, CHR 0x80, CHR 0x84], [CHR 0xE2, CHR 0x80, CHR 0x85],
      [CHR 0xE2, CHR 0x80, CHR 0x86], [CHR 0xE2, CHR 0x80, CHR 0x87],
      [CHR 0xE2, CHR 0x80, CHR 0x88], [CHR 0xE2, CHR 0x80, CHR 0x89],
      [CHR 0xE2, CHR 0x80, CHR 0x8A],
      [CHR 0xE2, CHR 0x80, CHR 0xA8], [CHR 0xE2, CHR 0x80, CHR 0xA9],
      [CHR 0xE2, CHR 0x80, CHR 0xAF], [CHR 0xE2, CHR 0x81, CHR 0x9F],
      [CHR 0xE3, CHR 0x80, CHR 0x80]]"

definition spaceWidth :: "string \<Rightarrow> nat" where
  "spaceWidth s =
     (if s \<noteq> [] \<and> isAsciiSpace (hd s) then 1
      else if take 2 s \<in> set unicodeSpaces2 then 2
      else if take 3 s \<in> set unicodeSpaces3 then 3
      else 0)"

definition spaceWidthEnd :: "string \<Rightarrow> nat" where
  "spaceWidthEnd s =
     (if s \<noteq> [] \<and> isAsciiSpace (last s) then 1
      else if drop (length s - 2) s \<in> set unicodeSpaces2 then 2
      else if drop (length s - 3) s \<in> set unicodeSpaces3 then 3
      else 0)"

function trimSpaceLeft :: "string \<Rightarrow> string" where
  "trimSpaceLeft s = (if spaceWidth s = 0 then s else trimSpaceLeft (drop (spaceWidth s) s))"
  by pat_completeness auto
termination
proof (relation "measure length")
  fix s :: string
  assume pos: "spaceWidth s \<noteq> 0"
  have "spaceWidth [] = 0"
    by (simp add: spaceWidth_def unicodeSpaces2_def unicodeSpaces3_def)
  with pos have "s \<noteq> []" by auto
  with pos show "(drop (spaceWidth s) s, s) \<in> measure length" by simp
qed simp

function trimSpaceRight :: "string \<Rightarrow> string" where
  "trimSpaceRight s =
     (if spaceWidthEnd s = 0 then s else trimSpaceRight (take (length s - spaceWidthEnd s) s))"
  by pat_completeness auto
termination
proof (relation "measure length")
  fix s :: string
  assume pos: "spaceWidthEnd s \<noteq> 0"
  have "spaceWidthEnd [] = 0"
    by (simp add: spaceWidthEnd_def unicodeSpaces2_def unicodeSpaces3_def)
  with pos have "s \<noteq> []" by auto
  with pos show "(take (length s - spaceWidthEnd s) s, s) \<in> measure length" by simp
qed simp

definition strings_TrimSpace :: "string \<Rightarrow> string" where
  "strings_TrimSpace s = trimSpaceRight (trimSpaceLeft s)"

text \<open>
  \<open>strings.Fields(s)\<close>: the maximal runs of bytes between white space, none empty.
  \<open>fieldsFrom cur s\<close> scans \<open>s\<close> with the field being read in \<open>cur\<close> (reversed).
\<close>

function fieldsFrom :: "string \<Rightarrow> string \<Rightarrow> string list" where
  "fieldsFrom cur s =
     (if s = [] then (if cur = [] then [] else [rev cur])
      else if spaceWidth s = 0 then fieldsFrom (hd s # cur) (tl s)
      else (if cur = [] then [] else [rev cur]) @ fieldsFrom [] (drop (spaceWidth s) s))"
  by pat_completeness auto
termination
proof (relation "measure (\<lambda>(cur, s). length s)")
  fix cur s :: string
  assume ne: "s \<noteq> []" and pos: "spaceWidth s \<noteq> 0"
  then show "(([], drop (spaceWidth s) s), (cur, s)) \<in> measure (\<lambda>(cur, s). length s)"
    by simp
next
  fix cur s :: string
  assume "s \<noteq> []"
  then show "((hd s # cur, tl s), (cur, s)) \<in> measure (\<lambda>(cur, s). length s)"
    by simp
qed simp

definition strings_Fields :: "string \<Rightarrow> string list" where
  "strings_Fields s = fieldsFrom [] s"

text \<open>
  \<open>strings.ToLower\<close>: ASCII capitals become lower case. Of the runes outside ASCII, Go
  also lowers the capitals, and only two of them to an ASCII letter: U+0130 to \<open>i\<close> and
  U+212A to \<open>k\<close>. The model lowers those two and leaves every other byte outside
  ASCII as it is: the program only compares lowered strings with ASCII constants.
\<close>

definition asciiLower :: "char \<Rightarrow> char" where
  "asciiLower c = (if isUpper c then char_of ((of_char c :: nat) + 32) else c)"

fun strings_ToLower :: "string \<Rightarrow> string" where
  "strings_ToLower (a # b # c # s) =
     (if a = CHR 0xE2 \<and> b = CHR 0x84 \<and> c = CHR 0xAA then CHR ''k'' # strings_ToLower s
      else if a = CHR 0xC4 \<and> b = CHR 0xB0 then CHR ''i'' # strings_ToLower (c # s)
      else asciiLower a # strings_ToLower (b # c # s))"
| "strings_ToLower [a, b] =
     (if a = CHR 0xC4 \<and> b = CHR 0xB0 then [CHR ''i'']
      else asciiLower a # strings_ToLower [b])"
| "strings_ToLower [a] = [asciiLower a]"
| "strings_ToLower [] = []"

section \<open>Path sanitizer: cleanString (parse/utils.go)\<close>

text \<open>
  The pattern \<open>[^a-zA-Z0-9\/\\\. ]+\<close> matches every maximal run of runes other than
  ASCII letters, digits, slash, backslash, dot and space; replacing the matches by the
  empty string keeps exactly the bytes of that class (a rune outside ASCII, or a byte
  that is not valid UTF-8, is matched and removed whole).
\<close>

definition keptByRegex :: "char \<Rightarrow> bool" where
  "keptByRegex c = (isAlnum c \<or> c = CHR ''/'' \<or> c = CHR 0x5C \<or> c = CHR ''.'' \<or> c = CHR '' '')"

definition nonAlphanumericRegex_ReplaceAllString :: "string \<Rightarrow> string" where
  "nonAlphanumericRegex_ReplaceAllString s = filter keptByRegex s"

definition cleanString :: "string \<Rightarrow> string" where
  "cleanString url0 =
     (let url1 = strings_ReplaceAll url0 (CHR ''#'') ''sharp'';
          url2 = strings_ReplaceAll url1 (CHR ''+'') ''plus'';
          url3 = nonAlphanumericRegex_ReplaceAllString url2;
          url4 = strings_ReplaceAll url3 (CHR 0x5C) ''/'';
          pieces = map (\<lambda>piece. strings_Trim piece ''-_ '') (strings_Split url4 (CHR ''/''));
          url5 = strings_Join pieces ''/'';
          words = map (\<lambda>piece. strings_Trim piece ''-_ '') (strings_Fields url5);
          url6 = strings_Join words ''-''
      in strings_Trim url6 ''-'')"

text \<open>The character classes of the slug: \<open>[A-Za-z0-9/-]\<close>, and the same with the dot.\<close>

definition inSlugClass :: "char \<Rightarrow> bool" where
  "inSlugClass c = (isAlnum c \<or> c = CHR ''/'' \<or> c = CHR ''-'')"

definition inSlugClassDot :: "char \<Rightarrow> bool" where
  "inSlugClassDot c = (isAlnum c \<or> c = CHR ''/'' \<or> c = CHR ''-'' \<or> c = CHR ''.'')"

section \<open>Go library: the regular expressions of the date patterns\<close>

text \<open>
  The three patterns of \<open>regexPatterns\<close> are sequences of three kinds of item: a named
  group of digits \<open>(?P<name>\d{lo,hi})\<close>, a run of non-digits \<open>\D+\<close>, and a literal
  byte. A pattern is matched as Go's \<open>regexp\<close> does it: items from left to right, each
  repetition greedy, the first alternative that lets the rest of the pattern match
  wins. \<open>\d\<close> is an ASCII digit; \<open>\D\<close> is any other rune, and since a rune other
  than a digit has no digit byte, a run of such runes is a run of non-digit bytes.
\<close>

datatype item = Digits string nat nat | NonDigits | Lit char

type_synonym pattern = "item list"

text \<open>The lengths an item may consume at the head of \<open>s\<close>, preferred length first.\<close>

fun candidates :: "item \<Rightarrow> string \<Rightarrow> nat list" where
  "candidates (Digits name lo hi) s =
     filter (\<lambda>n. n \<le> length s \<and> list_all isDigit (take n s)) (rev [lo ..< Suc hi])"
| "candidates NonDigits s = rev [1 ..< Suc (length (takeWhile (\<lambda>c. \<not> isDigit c) s))]"
| "candidates (Lit c) s = (if s \<noteq> [] \<and> hd s = c then [1] else [])"

fun capture :: "item \<Rightarrow> string \<Rightarrow> (string \<times> string) list" where
  "capture (Digits name lo hi) t = [(name, t)]"
| "capture NonDigits t = []"
| "capture (Lit c) t = []"

fun firstSome :: "('a \<Rightarrow> 'b option) \<Rightarrow> 'a list \<Rightarrow> 'b option" where
  "firstSome f [] = None"
| "firstSome f (x # xs) = (case f x of Some y \<Rightarrow> Some y | None \<Rightarrow> firstSome f xs)"

text \<open>
  \<open>matchHere p s\<close>: the match of \<open>p\<close> that starts at the head of \<open>s\<close>, as the named
  groups with their text, and the text after the match.
\<close>

fun matchHere :: "pattern \<Rightarrow> string \<Rightarrow> ((string \<times> string) list \<times> string) option" where
  "matchHere [] s = Some ([], s)"
| "matchHere (it # its) s =
     firstSome (\<lambda>n. case matchHere its (drop n s) of
                       None \<Rightarrow> None
                     | Some (caps, rest) \<Rightarrow> Some (capture it (take n s) @ caps, rest))
       (candidates it s)"

text \<open>\<open>FindStringSubmatch\<close>: the groups of the leftmost match, or nothing.\<close>

fun FindStringSubmatch :: "pattern \<Rightarrow> string \<Rightarrow> (string \<times> string) list option" where
  "FindStringSubmatch p [] = map_option fst (matchHere p [])"
| "FindStringSubmatch p (c # s) =
     (case matchHere p (c # s) of
        Some (caps, rest) \<Rightarrow> Some caps
      | None \<Rightarrow> FindStringSubmatch p s)"

text \<open>
  \<open>ReplaceAllString(s, "")\<close>: the successive leftmost matches are deleted. A match of
  one of the date patterns is never empty; were a match empty, the scan would step
  over one byte, as the library does.
\<close>

function ReplaceAllString_empty :: "pattern \<Rightarrow> string \<Rightarrow> string" where
  "ReplaceAllString_empty p s =
     (case matchHere p s of
        Some (caps, rest) \<Rightarrow>
          (if length rest < length s then ReplaceAllString_empty p rest
           else (case s of [] \<Rightarrow> [] | c # cs \<Rightarrow> c # ReplaceAllString_empty p cs))
      | None \<Rightarrow> (case s of [] \<Rightarrow> [] | c # cs \<Rightarrow> c # ReplaceAllString_empty p cs))"
  by pat_completeness auto
termination
  by (relation "measure (\<lambda>(p, s). length s)") auto

text \<open>
  \<open>strconv.Atoi\<close>: an optional sign and at least one decimal digit; the value must fit
  the 64-bit \<open>int\<close>.
\<close>

definition digitsVal :: "string \<Rightarrow> int" where
  "digitsVal s = foldl (\<lambda>v c. 10 * v + (int (of_char c) - 48)) 0 s"

definition strconv_Atoi :: "string \<Rightarrow> int option" where
  "strconv_Atoi s =
     (let neg = (s \<noteq> [] \<and> hd s = CHR ''-'');
          body = (if s \<noteq> [] \<and> (hd s = CHR ''-'' \<or> hd s = CHR ''+'') then tl s else s);
          v = (if neg then - digitsVal body else digitsVal body)
      in if body = [] \<or> \<not> list_all isDigit body then None
         else if v < - (2 ^ 63) \<or> 2 ^ 63 \<le> v then None
         else Some v)"

section \<open>Go library: time.Date\<close>

text \<open>
  \<open>time.Date(year, month, day, hour, min, sec, nsec, time.UTC)\<close>. The month is first
  normalised into 1..12, carrying into the year; the other fields may lie outside their
  usual ranges and simply add up. The calendar is the proleptic Gregorian one. The
  result is the instant in nanoseconds since January 1 of year 1.
\<close>

definition isLeap :: "int \<Rightarrow> bool" where
  "isLeap y = (y mod 4 = 0 \<and> (y mod 100 \<noteq> 0 \<or> y mod 400 = 0))"

definition daysBeforeYear :: "int \<Rightarrow> int" where
  "daysBeforeYear y = 365 * (y - 1) + (y - 1) div 4 - (y - 1) div 100 + (y - 1) div 400"

definition daysBefore :: "int list" where
  "daysBefore = [0, 31, 59, 90, 120, 151, 181, 212, 243, 273, 304, 334]"

definition time_Date :: "int \<Rightarrow> int \<Rightarrow> int \<Rightarrow> int \<Rightarrow> int \<Rightarrow> int \<Rightarrow> int \<Rightarrow> Time" where
  "time_Date year month day hour minute sec nsec =
     (let y = year + (month - 1) div 12;
          m = (month - 1) mod 12;
          d = daysBeforeYear y + daysBefore ! nat m
              + (if isLeap y \<and> 2 \<le> m then 1 else 0) + (day - 1)
      in (d * 86400 + hour * 3600 + minute * 60 + sec) * 1000000000 + nsec)"

section \<open>Date utilities (parse/utils.go)\<close>

definition regexPatterns :: "pattern list" where
  "regexPatterns =
     [[Digits ''year'' 4 4, NonDigits, Digits ''month'' 1 2, NonDigits, Digits ''day'' 1 2],
      [Digits ''day'' 1 2, NonDigits, Digits ''month'' 1 2, NonDigits, Digits ''year'' 4 4],
      [Digits ''hour'' 2 2, Lit (CHR '':''), Digits ''min'' 2 2, Lit (CHR '':''),
       Digits ''sec'' 2 2]]"

definition RemoveDateFromPath :: "string \<Rightarrow> string" where
  "RemoveDateFromPath stringWithDate =
     strings_Trim (foldl (\<lambda>s regexPattern. ReplaceAllString_empty regexPattern s)
                     stringWithDate regexPatterns) ''-_ ''"

text \<open>
  The two errors of \<open>DateTimeFromString\<close>: no pattern matched the text, or a group
  (first field) of the text (second field) is not an integer.
\<close>

datatype date_error = NoDateFound string | MalformedNumber string string

text \<open>
  The inner loop over the named groups of one match: each group is converted and
  stored under its name in the map \<open>m\<close>; the first failing conversion is returned.
\<close>

fun storeGroups :: "string \<Rightarrow> (string \<times> string) list \<Rightarrow> (string \<rightharpoonup> int)
    \<Rightarrow> date_error + (string \<rightharpoonup> int)" where
  "storeGroups date [] m = Inr m"
| "storeGroups date ((name, text) # groups) m =
     (if name = [] then storeGroups date groups m
      else (case strconv_Atoi text of
              None \<Rightarrow> Inl (MalformedNumber text date)
            | Some integer \<Rightarrow> storeGroups date groups (m(name \<mapsto> integer))))"

text \<open>The outer loop over the patterns, with the map and the flag \<open>foundMatch\<close>.\<close>

fun scanPatterns :: "string \<Rightarrow> pattern list \<Rightarrow> (string \<rightharpoonup> int) \<times> bool
    \<Rightarrow> date_error + ((string \<rightharpoonup> int) \<times> bool)" where
  "scanPatterns date [] (m, foundMatch) = Inr (m, foundMatch)"
| "scanPatterns date (pattern # patterns) (m, foundMatch) =
     (case FindStringSubmatch pattern date of
        None \<Rightarrow> scanPatterns date patterns (m, foundMatch)
      | Some groups \<Rightarrow>
          (case storeGroups date groups m of
             Inl err \<Rightarrow> Inl err
           | Inr m' \<Rightarrow> scanPatterns date patterns (m', True)))"

text \<open>Reading a key of a Go map of integers: zero when the key is absent.\<close>

definition field :: "(string \<rightharpoonup> int) \<Rightarrow> string \<Rightarrow> int" where
  "field m name = (case m name of None \<Rightarrow> 0 | Some v \<Rightarrow> v)"

definition timeOfFields :: "(string \<rightharpoonup> int) \<Rightarrow> Time" where
  "timeOfFields m =
     time_Date (field m ''year'') (field m ''month'') (field m ''day'')
       (field m ''hour'') (field m ''min'') (field m ''sec'') 0"

definition DateTimeFromString :: "string \<Rightarrow> date_error + Time" where
  "DateTimeFromString date =
     (case scanPatterns date regexPatterns (Map.empty, False) of
        Inl err \<Rightarrow> Inl err
      | Inr (m, foundMatch) \<Rightarrow>
          (if \<not> foundMatch then Inl (NoDateFound date) else Inr (timeOfFields m)))"

text \<open>
  The fields one pattern contributes: the named groups of its leftmost match, each as a
  number; no field when the pattern does not match.
\<close>

definition capturedFields :: "pattern \<Rightarrow> string \<Rightarrow> (string \<rightharpoonup> int)" where
  "capturedFields p date =
     (case FindStringSubmatch p date of
        None \<Rightarrow> Map.empty
      | Some groups \<Rightarrow> map_of (map (\<lambda>(name, text). (name, digitsVal text)) groups))"

text \<open>Notions used in the proofs: a group of one to four digits, a pattern whose groups
  are named and take one to four digits, and the group names of a pattern in order.\<close>

definition goodNum :: "string \<Rightarrow> bool" where
  "goodNum t = (t \<noteq> [] \<and> list_all isDigit t \<and> length t \<le> 4)"

fun goodItem :: "item \<Rightarrow> bool" where
  "goodItem (Digits name lo hi) = (name \<noteq> [] \<and> 1 \<le> lo \<and> hi \<le> 4)"
| "goodItem NonDigits = True"
| "goodItem (Lit c) = True"

fun itemNames :: "item \<Rightarrow> string list" where
  "itemNames (Digits name lo hi) = [name]"
| "itemNames NonDigits = []"
| "itemNames (Lit c) = []"

definition groupNames :: "pattern \<Rightarrow> string list" where
  "groupNames p = concat (map itemNames p)"

definition goodPattern :: "pattern \<Rightarrow> bool" where
  "goodPattern p = (list_all goodItem p \<and> distinct (groupNames p))"


section \<open>Go library: path/filepath\<close>

text \<open>
  Package \<open>path/filepath\<close> on a system whose separator is the slash, where a path has
  no volume name and \<open>ToSlash\<close> and \<open>FromSlash\<close> change nothing.

  \<open>Clean\<close> works through the elements of the path between slashes: an empty element
  and \<open>.\<close> are dropped; \<open>..\<close> removes the element before it when there is one that is
  not itself \<open>..\<close>, is dropped at the root, and is kept otherwise. \<open>cleanElems\<close> holds
  the elements kept so far, last one first.
\<close>

fun cleanElems :: "bool \<Rightarrow> string list \<Rightarrow> string list \<Rightarrow> string list" where
  "cleanElems rooted [] kept = kept"
| "cleanElems rooted (e # es) kept =
     (if e = [] \<or> e = ''.'' then cleanElems rooted es kept
      else if e = ''..'' then
        (case kept of
           [] \<Rightarrow> (if rooted then cleanElems rooted es [] else cleanElems rooted es [''..''])
         | k # ks \<Rightarrow>
             (if k = ''..'' then cleanElems rooted es (''..'' # kept)
              else cleanElems rooted es ks))
      else cleanElems rooted es (e # kept))"

definition filepath_Clean :: "string \<Rightarrow> string" where
  "filepath_Clean path =
     (if path = [] then ''.''
      else
        (let rooted = (hd path = CHR ''/'');
             kept = cleanElems rooted (strings_Split path (CHR ''/'')) [];
             out = (if rooted then ''/'' else []) @ strings_Join (rev kept) ''/''
         in if out = [] then ''.'' else out))"

text \<open>\<open>Join\<close> drops leading empty elements, joins the rest with slashes and cleans;
  the join of no element, or of empty elements only, is the empty string.\<close>

definition filepath_Join :: "string list \<Rightarrow> string" where
  "filepath_Join elem =
     (case dropWhile (\<lambda>e. e = []) elem of
        [] \<Rightarrow> []
      | e # es \<Rightarrow> filepath_Clean (strings_Join (e # es) ''/''))"

text \<open>\<open>Dir\<close>: the path up to and including its last slash, cleaned.\<close>

definition filepath_Dir :: "string \<Rightarrow> string" where
  "filepath_Dir path = filepath_Clean (rev (dropWhile (\<lambda>c. c \<noteq> CHR ''/'') (rev path)))"

text \<open>\<open>Base\<close>: the last element of the path, after its trailing slashes are removed.\<close>

definition filepath_Base :: "string \<Rightarrow> string" where
  "filepath_Base path =
     (if path = [] then ''.''
      else
        (let stripped = rev (dropWhile (\<lambda>c. c = CHR ''/'') (rev path));
             lastElem = rev (takeWhile (\<lambda>c. c \<noteq> CHR ''/'') (rev stripped))
         in if lastElem = [] then ''/'' else lastElem))"

text \<open>\<open>Ext\<close>: the suffix of the last element that begins at its final dot; empty when
  the last element has no dot.\<close>

definition filepath_Ext :: "string \<Rightarrow> string" where
  "filepath_Ext path =
     (let lastElem = rev (takeWhile (\<lambda>c. c \<noteq> CHR ''/'') (rev path))
      in if CHR ''.'' \<in> set lastElem
         then CHR ''.'' # rev (takeWhile (\<lambda>c. c \<noteq> CHR ''.'') (rev lastElem))
         else [])"

text \<open>
  \<open>Rel(basepath, targpath)\<close>. Both paths are cleaned; equal paths give \<open>.\<close>; a rooted
  and an unrooted path cannot be related. Otherwise the common leading elements are
  skipped (\<open>skipCommon\<close>); if the first base element left is \<open>..\<close> the call fails; each
  base element left becomes one \<open>..\<close>, followed by what is left of the target.
\<close>

datatype rel_error = CannotMakeRelative string string

fun skipCommon :: "string list \<Rightarrow> string list \<Rightarrow> string list \<times> string list" where
  "skipCommon (b # bs) (t # ts) = (if b = t then skipCommon bs ts else (b # bs, t # ts))"
| "skipCommon bs ts = (bs, ts)"

text \<open>The elements of a cleaned path; the root \<open>/\<close> is the one empty element that
  starts every rooted path.\<close>

definition pathElems :: "string \<Rightarrow> string list" where
  "pathElems p =
     (if p = [] then [] else if p = ''/'' then [[]] else strings_Split p (CHR ''/''))"

definition filepath_Rel :: "string \<Rightarrow> string \<Rightarrow> rel_error + string" where
  "filepath_Rel basepath targpath =
     (let base0 = filepath_Clean basepath;
          targ = filepath_Clean targpath;
          base = (if base0 = ''.'' then [] else base0);
          baseSlashed = (base \<noteq> [] \<and> hd base = CHR ''/'');
          targSlashed = (targ \<noteq> [] \<and> hd targ = CHR ''/'')
      in if targ = base0 then Inr ''.''
         else if baseSlashed \<noteq> targSlashed then Inl (CannotMakeRelative targpath basepath)
         else
           (case skipCommon (pathElems base) (pathElems targ) of
              (bs, ts) \<Rightarrow>
                if bs \<noteq> [] \<and> ts \<noteq> [] \<and> hd bs = ''..''
                then Inl (CannotMakeRelative targpath basepath)
                else if bs \<noteq> []
                then Inr (strings_Join (map (\<lambda>b. ''..'') bs @ (if ts = [] then [] else [strings_Join ts ''/''])) ''/'')
                else Inr (strings_Join ts ''/'')))"

definition filepath_ToSlash :: "string \<Rightarrow> string" where
  "filepath_ToSlash path = path"

definition filepath_FromSlash :: "string \<Rightarrow> string" where
  "filepath_FromSlash path = path"

text \<open>Notions used in the proofs about \<open>Clean\<close>: an element that \<open>Clean\<close> keeps, and
  the form of the elements kept so far (last one first): the \<open>..\<close> elements come
  first in the path, and there is none under a root.\<close>

definition plainElem :: "string \<Rightarrow> bool" where
  "plainElem e = (e \<noteq> [] \<and> e \<noteq> ''.'' \<and> CHR ''/'' \<notin> set e)"

definition keptShape :: "bool \<Rightarrow> string list \<Rightarrow> bool" where
  "keptShape rooted kept =
     (list_all plainElem kept
      \<and> (\<exists>ns n. kept = ns @ replicate n ''..'' \<and> ''..'' \<notin> set ns)
      \<and> (rooted \<longrightarrow> ''..'' \<notin> set kept))"

section \<open>The file system (package os)\<close>

text \<open>
  The file system is a finite table from cleaned paths to nodes: a file with its
  bytes, or a directory. Every operation cleans the path it is given, as the kernel
  resolves empty elements and dots; \<open>.\<close> and \<open>/\<close> always exist as directories. The
  table has no symbolic links and no permissions: an operation fails only for the
  reasons written out below. A path that names nothing fails with \<open>ENOTDIR\<close>
  (\<open>NotDirectory\<close>) when one of the paths above it is a file, and with \<open>ENOENT\<close>
  (\<open>NotExist\<close>) otherwise; only the second satisfies \<open>os.IsNotExist\<close>.
\<close>

datatype node = File string | Dir

type_synonym FS = "(string \<times> node) list"

datatype os_error = NotExist string | IsDirectory string | NotDirectory string | Exists string

fun fs_update :: "string \<Rightarrow> node \<Rightarrow> FS \<Rightarrow> FS" where
  "fs_update p n [] = [(p, n)]"
| "fs_update p n ((q, m) # fs) = (if q = p then (p, n) # fs else (q, m) # fs_update p n fs)"

text \<open>The paths above a cleaned path: its proper prefixes that end before a slash.\<close>

definition ancestorPaths :: "string \<Rightarrow> string list" where
  "ancestorPaths p = map (\<lambda>i. take i p) (filter (\<lambda>i. p ! i = CHR ''/'') [1 ..< length p])"

definition isFileIn :: "FS \<Rightarrow> string \<Rightarrow> bool" where
  "isFileIn fs p = (case map_of fs p of Some (File c) \<Rightarrow> True | _ \<Rightarrow> False)"

definition os_Stat :: "FS \<Rightarrow> string \<Rightarrow> os_error + node" where
  "os_Stat fs path =
     (let p = filepath_Clean path
      in if path = [] then Inl (NotExist path)
         else if p = ''.'' \<or> p = ''/'' then Inr Dir
         else (case map_of fs p of
                 None \<Rightarrow> if list_ex (isFileIn fs) (ancestorPaths p)
                         then Inl (NotDirectory path) else Inl (NotExist path)
               | Some n \<Rightarrow> Inr n))"

definition os_ReadFile :: "FS \<Rightarrow> string \<Rightarrow> os_error + string" where
  "os_ReadFile fs path =
     (case os_Stat fs path of
        Inl e \<Rightarrow> Inl e
      | Inr Dir \<Rightarrow> Inl (IsDirectory path)
      | Inr (File content) \<Rightarrow> Inr content)"

text \<open>\<open>WriteFile\<close> creates or truncates the file; the directory that holds it must
  exist. \<open>parentError\<close> is the error of an operation whose parent directory could not
  be reached.\<close>

fun parentError :: "string \<Rightarrow> os_error \<Rightarrow> os_error" where
  "parentError path (NotDirectory p) = NotDirectory path"
| "parentError path e = NotExist path"

definition os_WriteFile :: "FS \<Rightarrow> string \<Rightarrow> string \<Rightarrow> os_error + FS" where
  "os_WriteFile fs path content =
     (case os_Stat fs (filepath_Dir (filepath_Clean path)) of
        Inl e \<Rightarrow> Inl (parentError path e)
      | Inr (File c) \<Rightarrow> Inl (NotDirectory path)
      | Inr Dir \<Rightarrow>
          (case os_Stat fs path of
             Inr Dir \<Rightarrow> Inl (IsDirectory path)
           | _ \<Rightarrow> if path = [] then Inl (NotExist path)
                  else Inr (fs_update (filepath_Clean path) (File content) fs)))"

definition os_Mkdir :: "FS \<Rightarrow> string \<Rightarrow> os_error + FS" where
  "os_Mkdir fs path =
     (case os_Stat fs path of
        Inr n \<Rightarrow> Inl (Exists path)
      | Inl e \<Rightarrow>
          (if path = [] then Inl (NotExist path)
           else (case os_Stat fs (filepath_Dir (filepath_Clean path)) of
                   Inl e \<Rightarrow> Inl (parentError path e)
                 | Inr (File c) \<Rightarrow> Inl (NotDirectory path)
                 | Inr Dir \<Rightarrow> Inr (fs_update (filepath_Clean path) Dir fs))))"

text \<open>
  \<open>MkdirAll\<close>: nothing to do when the path is a directory, an error when it is a
  file; otherwise the parent (the path up to the last slash before its last element)
  is made first, then the directory itself.
\<close>

definition parentPrefix :: "string \<Rightarrow> string" where
  "parentPrefix path =
     rev (dropWhile (\<lambda>c. c \<noteq> CHR ''/'') (dropWhile (\<lambda>c. c = CHR ''/'') (rev path)))"

function os_MkdirAll :: "FS \<Rightarrow> string \<Rightarrow> os_error + FS" where
  "os_MkdirAll fs path =
     (case os_Stat fs path of
        Inr Dir \<Rightarrow> Inr fs
      | Inr (File c) \<Rightarrow> Inl (NotDirectory path)
      | Inl e \<Rightarrow>
          (if parentPrefix path \<noteq> [] then
             (case os_MkdirAll fs (parentPrefix path) of
                Inl e \<Rightarrow> Inl e
              | Inr fs' \<Rightarrow> os_Mkdir fs' path)
           else os_Mkdir fs path))"
  by pat_completeness auto
termination
proof (relation "measure (\<lambda>(fs, path). length path)")
  fix fs :: FS and path :: string
  assume ne: "parentPrefix path \<noteq> []"
  define r where "r = dropWhile (\<lambda>c. c = CHR ''/'') (rev path)"
  have pp: "parentPrefix path = rev (dropWhile (\<lambda>c. c \<noteq> CHR ''/'') r)"
    by (simp add: parentPrefix_def r_def)
  have "r \<noteq> []"
    using ne unfolding pp by auto
  then obtain c r' where r: "r = c # r'" by (cases r) auto
  have "\<not> (hd r = CHR ''/'')"
    unfolding r_def using \<open>r \<noteq> []\<close> [unfolded r_def] by (rule hd_dropWhile)
  then have "c \<noteq> CHR ''/''"
    using r by simp
  then have "dropWhile (\<lambda>c. c \<noteq> CHR ''/'') r = dropWhile (\<lambda>c. c \<noteq> CHR ''/'') r'"
    using r by simp
  then have "length (dropWhile (\<lambda>c. c \<noteq> CHR ''/'') r) \<le> length r'"
    using length_dropWhile_le [of "\<lambda>c. c \<noteq> CHR ''/''" r'] by simp
  moreover have "length r \<le> length path"
    using length_dropWhile_le [of "\<lambda>c. c = CHR ''/''" "rev path"] by (simp add: r_def)
  ultimately have "length (parentPrefix path) < length path"
    unfolding pp using r by simp
  then show "((fs, parentPrefix path), (fs, path)) \<in> measure (\<lambda>(fs, path). length path)"
    by simp
qed simp

text \<open>
  \<open>os.ReadDir\<close>: the entries of a directory, each with its name and kind, in the
  order of their names. An entry of the directory \<open>dir\<close> is a path of the table that
  is \<open>dir\<close>, a slash and one more element.
\<close>

definition childName :: "string \<Rightarrow> string \<Rightarrow> string option" where
  "childName dir p =
     (let prefix = (if dir = ''.'' then [] else if dir = ''/'' then ''/'' else dir @ ''/'');
          name = drop (length prefix) p
      in if strings_HasPrefix p prefix \<and> name \<noteq> [] \<and> CHR ''/'' \<notin> set name
            \<and> name \<noteq> ''.'' \<and> name \<noteq> ''..''
         then Some name else None)"

definition os_ReadDir :: "FS \<Rightarrow> string \<Rightarrow> os_error + (string \<times> node) list" where
  "os_ReadDir fs name =
     (case os_Stat fs name of
        Inl e \<Rightarrow> Inl e
      | Inr (File c) \<Rightarrow> Inl (NotDirectory name)
      | Inr Dir \<Rightarrow>
          Inr (insertionSort (\<lambda>a b. string_less (fst a) (fst b))
                 (List.map_filter
                    (\<lambda>e. map_option (\<lambda>child. (child, snd e)) (childName (filepath_Clean name) (fst e)))
                    fs)))"

section \<open>Go library: net/url\<close>

text \<open>
  \<open>url.Parse\<close>, as far as the resolver reads its result: whether it fails, and the
  field \<open>Path\<close>. The text after the first \<open>#\<close> is the fragment; a scheme is a letter
  followed by letters, digits, \<open>+\<close>, \<open>-\<close> or \<open>.\<close> and then a colon; the text after the
  first \<open>?\<close> is the query; a reference with a scheme and no leading slash is opaque
  and has an empty path; a leading \<open>//\<close> introduces an authority, which ends at the
  next slash; what is left is the path, with its percent escapes decoded. The
  validation of the authority (user information, host and port) is not modelled: its
  verdict is the parameter \<open>authorityOk\<close>.
\<close>

datatype url_error =
    InvalidControlCharacter | MissingProtocolScheme | ColonInFirstPathSegment
  | InvalidAuthority | InvalidEscape

definition stringContainsCTLByte :: "string \<Rightarrow> bool" where
  "stringContainsCTLByte s = list_ex (\<lambda>c. (of_char c :: nat) < 32 \<or> (of_char c :: nat) = 127) s"

text \<open>\<open>getScheme\<close>: \<open>seen\<close> holds the bytes read so far, last one first.\<close>

fun getSchemeFrom :: "string \<Rightarrow> string \<Rightarrow> string \<Rightarrow> url_error + (string \<times> string)" where
  "getSchemeFrom rawURL seen [] = Inr ([], rawURL)"
| "getSchemeFrom rawURL seen (c # cs) =
     (if isLower c \<or> isUpper c then getSchemeFrom rawURL (c # seen) cs
      else if isDigit c \<or> c = CHR ''+'' \<or> c = CHR ''-'' \<or> c = CHR ''.'' then
        (if seen = [] then Inr ([], rawURL) else getSchemeFrom rawURL (c # seen) cs)
      else if c = CHR '':'' then
        (if seen = [] then Inl MissingProtocolScheme else Inr (rev seen, cs))
      else Inr ([], rawURL))"

definition getScheme :: "string \<Rightarrow> url_error + (string \<times> string)" where
  "getScheme rawURL = getSchemeFrom rawURL [] rawURL"

definition ishex :: "char \<Rightarrow> bool" where
  "ishex c = (isDigit c
     \<or> (97 \<le> (of_char c :: nat) \<and> (of_char c :: nat) \<le> 102)
     \<or> (65 \<le> (of_char c :: nat) \<and> (of_char c :: nat) \<le> 70))"

definition unhex :: "char \<Rightarrow> nat" where
  "unhex c =
     (if isDigit c then of_char c - 48
      else if 97 \<le> (of_char c :: nat) \<and> (of_char c :: nat) \<le> 102 then of_char c - 97 + 10
      else of_char c - 65 + 10)"

text \<open>\<open>unescape\<close> in the modes of a path and of a fragment: every \<open>%\<close> must be followed
  by two hexadecimal digits, and the three bytes become the byte they encode.\<close>

fun unescape :: "string \<Rightarrow> url_error + string" where
  "unescape [] = Inr []"
| "unescape (c # s) =
     (if c = CHR ''%'' then
        (case s of
           h1 # h2 # s' \<Rightarrow>
             (if ishex h1 \<and> ishex h2 then
                (case unescape s' of
                   Inl e \<Rightarrow> Inl e
                 | Inr t \<Rightarrow> Inr (char_of (unhex h1 * 16 + unhex h2) # t))
              else Inl InvalidEscape)
         | _ \<Rightarrow> Inl InvalidEscape)
      else (case unescape s of Inl e \<Rightarrow> Inl e | Inr t \<Rightarrow> Inr (c # t)))"

text \<open>\<open>strings.Cut(s, sep)\<close> for a one-byte separator: the text before the first
  separator, the text after it, and whether there is one.\<close>

definition strings_Cut :: "string \<Rightarrow> char \<Rightarrow> string \<times> string \<times> bool" where
  "strings_Cut s sep =
     (if sep \<in> set s
      then (takeWhile (\<lambda>c. c \<noteq> sep) s, tl (dropWhile (\<lambda>c. c \<noteq> sep) s), True)
      else (s, [], False))"

text \<open>The unexported \<open>parse(rawURL, false)\<close>, reduced to the path it sets.\<close>

definition url_parse :: "(string \<Rightarrow> bool) \<Rightarrow> string \<Rightarrow> url_error + string" where
  "url_parse authorityOk rawURL =
     (if stringContainsCTLByte rawURL then Inl InvalidControlCharacter
      else if rawURL = ''*'' then Inr ''*''
      else
        (case getScheme rawURL of
           Inl e \<Rightarrow> Inl e
         | Inr (scheme, rest0) \<Rightarrow>
             (let rest1 = (if strings_HasSuffix rest0 ''?'' \<and> count_list rest0 (CHR ''?'') = 1
                           then butlast rest0
                           else fst (strings_Cut rest0 (CHR ''?'')))
              in if \<not> strings_HasPrefix rest1 ''/'' \<and> scheme \<noteq> [] then Inr []
                 else if \<not> strings_HasPrefix rest1 ''/''
                         \<and> CHR '':'' \<in> set (fst (strings_Cut rest1 (CHR ''/'')))
                 then Inl ColonInFirstPathSegment
                 else if (scheme \<noteq> [] \<or> \<not> strings_HasPrefix rest1 ''///'')
                         \<and> strings_HasPrefix rest1 ''//''
                 then
                   (let authority = takeWhile (\<lambda>c. c \<noteq> CHR ''/'') (drop 2 rest1);
                        rest2 = dropWhile (\<lambda>c. c \<noteq> CHR ''/'') (drop 2 rest1)
                    in if authorityOk authority then unescape rest2 else Inl InvalidAuthority)
                 else unescape rest1)))"

text \<open>\<open>url.Parse\<close>: the reference is cut at the first \<open>#\<close>; the fragment, when not
  empty, must unescape.\<close>

definition url_Parse :: "(string \<Rightarrow> bool) \<Rightarrow> string \<Rightarrow> url_error + string" where
  "url_Parse authorityOk rawURL =
     (case strings_Cut rawURL (CHR ''#'') of
        (u, frag, found) \<Rightarrow>
          (case url_parse authorityOk u of
             Inl e \<Rightarrow> Inl e
           | Inr path \<Rightarrow>
               (if frag = [] then Inr path
                else (case unescape frag of Inl e \<Rightarrow> Inl e | Inr f \<Rightarrow> Inr path))))"

section \<open>Settings (parse/models.go)\<close>

text \<open>The fields of \<open>Settings\<close> that the functions modelled here read.\<close>

record Settings =
  InputPath :: string
  OutputPath :: string
  IndexName :: string
  DoNotExtractTagsFromPaths :: bool
  DoNotRemoveDateFromPaths :: bool
  DoNotRemoveDateFromTitles :: bool
  Sort :: SortOrder
  IgnoreErrors :: bool

section \<open>Resource resolver: CopyHtmlResources (parse/utils.go)\<close>

subsection \<open>copyDirectoryRecursively\<close>

text \<open>
  \<open>filepath.WalkDir\<close> calls the function on the root and then on everything below it:
  on a directory first, then it reads the entries of that directory as they are at that
  moment and goes through them in the order of their names. \<open>walkDir\<close> holds the
  entries still to visit, each with the kind it had when its directory was read. The
  function makes a directory at the destination, or reads the file and writes it there;
  the first error ends the walk. When the destination lies inside the source the walk
  finds what it has just written and copies it again, one level deeper each time: the
  result \<open>None\<close> is a walk that does not return. (A real system ends such a walk with
  an error once a path is longer than it allows; the table has no such limit.)
\<close>

datatype walk_error = WalkOs os_error | WalkRel rel_error

partial_function (option) walkDir :: "string \<Rightarrow> string \<Rightarrow> (string \<times> node) list \<Rightarrow> FS
    \<Rightarrow> (FS \<times> walk_error option) option" where
  "walkDir srcDir destDir pending fs =
     (case pending of
        [] \<Rightarrow> Some (fs, None)
      | entry # rest \<Rightarrow>
          (case filepath_Rel srcDir (fst entry) of
             Inl e \<Rightarrow> Some (fs, Some (WalkRel e))
           | Inr relPath \<Rightarrow>
               (case snd entry of
                  Dir \<Rightarrow>
                    (case os_MkdirAll fs (filepath_Join [destDir, relPath]) of
                       Inl e \<Rightarrow> Some (fs, Some (WalkOs e))
                     | Inr fs' \<Rightarrow>
                         (case os_ReadDir fs' (fst entry) of
                            Inl e \<Rightarrow> Some (fs', Some (WalkOs e))
                          | Inr dirs \<Rightarrow>
                              walkDir srcDir destDir
                                (map (\<lambda>d1. (filepath_Join [fst entry, fst d1], snd d1)) dirs @ rest)
                                fs'))
                | File c \<Rightarrow>
                    (case os_ReadFile fs (fst entry) of
                       Inl e \<Rightarrow> Some (fs, Some (WalkOs e))
                     | Inr input \<Rightarrow>
                         (case os_WriteFile fs (filepath_Join [destDir, relPath]) input of
                            Inl e \<Rightarrow> Some (fs, Some (WalkOs e))
                          | Inr fs' \<Rightarrow> walkDir srcDir destDir rest fs')))))"

declare walkDir.simps [code]

definition copyDirectoryRecursively :: "string \<Rightarrow> string \<Rightarrow> FS
    \<Rightarrow> (FS \<times> walk_error option) option" where
  "copyDirectoryRecursively srcDir destDir fs =
     (case os_Stat fs srcDir of
        Inl e \<Rightarrow> Some (fs, Some (WalkOs e))
      | Inr n \<Rightarrow> walkDir srcDir destDir [(srcDir, n)] fs)"

subsection \<open>The steps before the copy\<close>

datatype resolve_error =
    RelativePathFailed string
  | CreateOutputDirectoryFailed string
  | CopyDirectoryFailed string
  | ResourceNotFound string string
  | StatResourceFailed string
  | ReadResourceFailed string
  | CreateResourceDirectoryFailed string
  | WriteResourceFailed string
  | RelativeLinkFailed string string
  | ReadCoverImageFailed string string
  | CreateCoverDirectoryFailed string
  | WriteCoverImageFailed string

definition removeDateFromTitle :: "Settings \<Rightarrow> Article \<Rightarrow> Article" where
  "removeDateFromTitle settings article =
     (if \<not> DoNotRemoveDateFromTitles settings \<and> RemoveDateFromPath (Title article) \<noteq> []
      then article\<lparr>Title := RemoveDateFromPath (Title article)\<rparr>
      else article)"

definition addPathTags :: "Settings \<Rightarrow> string \<Rightarrow> Article \<Rightarrow> Article" where
  "addPathTags settings relativeInputPath article =
     (if \<not> DoNotExtractTagsFromPaths settings then
        (let relativeInputPathNoDate = filepath_Clean (RemoveDateFromPath relativeInputPath);
             pathTags = map (\<lambda>tag. strings_Trim tag ''-_ '')
                          (strings_Split relativeInputPathNoDate (CHR ''/''))
         in if 1 < length pathTags
            then article\<lparr>Tags := foldl (\<lambda>tags tag. if slices_Contains tags tag then tags
                                                      else tags @ [tag])
                                       (Tags article) (butlast pathTags)\<rparr>
            else article)
      else article)"

definition computeOutputPath :: "Settings \<Rightarrow> string \<Rightarrow> string" where
  "computeOutputPath settings relativeInputPath =
     (let outputPath0 = filepath_Join [OutputPath settings, relativeInputPath];
          outputPath1 = strings_TrimSuffix outputPath0 (filepath_Ext outputPath0);
          outputPath2 = filepath_Join [outputPath1, IndexName settings];
          datelessOutputPath = RemoveDateFromPath outputPath2;
          outputPath3 =
            (if \<not> DoNotRemoveDateFromPaths settings
                \<and> \<not> (strings_Contains datelessOutputPath [CHR 0x5C]
                       \<or> strings_Contains datelessOutputPath ''//'')
             then datelessOutputPath else outputPath2)
      in cleanString outputPath3)"

definition isHtmlPage :: "Article \<Rightarrow> bool" where
  "isHtmlPage article =
     (strings_HasSuffix (strings_ToLower (OriginalPath article)) ''.html''
      \<and> slices_Contains (Tags article) ''PAGE'')"

subsection \<open>Selective copy: the loop over the resource references\<close>

text \<open>
  The first half of the loop body decides whether a reference is skipped
  (\<open>continue\<close>, here \<open>None\<close>) or names a file to copy, and under which path. The
  tests are those of the source, in its order and under its numbering: (1) absolute
  external URLs and (2) links that are no resources, both tested on the lowered
  reference; then the path of the parsed reference without its leading slash; then (3)
  links to other content files and (4) links without an extension.
\<close>

definition isAbsoluteExternalURL :: "string \<Rightarrow> bool" where
  "isAbsoluteExternalURL resourceOrigRelPathLower =
     (strings_HasPrefix resourceOrigRelPathLower ''http://''
      \<or> strings_HasPrefix resourceOrigRelPathLower ''https://''
      \<or> strings_HasPrefix resourceOrigRelPathLower ''ftp://''
      \<or> strings_HasPrefix resourceOrigRelPathLower ''//'')"

definition isNonResourceLink :: "string \<Rightarrow> bool" where
  "isNonResourceLink resourceOrigRelPathLower =
     (strings_HasPrefix resourceOrigRelPathLower ''#''
      \<or> strings_HasPrefix resourceOrigRelPathLower ''mailto:''
      \<or> strings_HasPrefix resourceOrigRelPathLower ''tel:''
      \<or> strings_HasPrefix resourceOrigRelPathLower ''sms:''
      \<or> strings_HasPrefix resourceOrigRelPathLower ''www.'')"

text \<open>The variable \<open>cleanPath\<close> of a trimmed reference that passed tests (1) and (2):
  the parsed path, or the reference itself when it does not parse, without one leading
  slash; \<open>None\<close> when the loop continues because the path is empty.\<close>

definition cleanPathOf :: "(string \<Rightarrow> bool) \<Rightarrow> string \<Rightarrow> string option" where
  "cleanPathOf authorityOk resourceOrigRelPath =
     (case url_Parse authorityOk resourceOrigRelPath of
        Inr [] \<Rightarrow> None
      | parsed \<Rightarrow>
          (let cleanPath0 = (case parsed of Inr path \<Rightarrow> path | Inl e \<Rightarrow> resourceOrigRelPath);
               cleanPath = strings_TrimPrefix cleanPath0 ''/''
           in if cleanPath = [] then None else Some cleanPath))"

definition isContentFileExt :: "string \<Rightarrow> bool" where
  "isContentFileExt ext =
     (ext = ''.md'' \<or> ext = ''.markdown'' \<or> ext = ''.html'' \<or> ext = ''.htm'')"

definition resourceCleanPath :: "(string \<Rightarrow> bool) \<Rightarrow> string \<Rightarrow> string option" where
  "resourceCleanPath authorityOk resourceOrigRelPath0 =
     (let resourceOrigRelPath = strings_TrimSpace resourceOrigRelPath0;
          resourceOrigRelPathLower = strings_ToLower resourceOrigRelPath
      in if resourceOrigRelPath = [] then None
         else if isAbsoluteExternalURL resourceOrigRelPathLower then None
         else if isNonResourceLink resourceOrigRelPathLower then None
         else
           (case cleanPathOf authorityOk resourceOrigRelPath of
              None \<Rightarrow> None
            | Some cleanPath \<Rightarrow>
                (let ext = strings_ToLower (filepath_Ext cleanPath)
                 in if isContentFileExt ext then None
                    else if ext = [] then None
                    else Some cleanPath)))"

text \<open>
  The second half copies the file. The result is the file system and, when the loop
  must stop, the error that \<open>CopyHtmlResources\<close> returns.
\<close>

definition copyResource :: "(string \<Rightarrow> bool) \<Rightarrow> Settings \<Rightarrow> Article \<Rightarrow> string \<Rightarrow> string
    \<Rightarrow> string \<Rightarrow> FS \<Rightarrow> FS \<times> resolve_error option" where
  "copyResource authorityOk settings article originalDirectory outputDirectory resource fs =
     (case resourceCleanPath authorityOk resource of
        None \<Rightarrow> (fs, None)
      | Some cleanPath \<Rightarrow>
          (let resourceOrigPath = filepath_Join [originalDirectory, cleanPath];
               resourceDestPath = filepath_Join [outputDirectory, cleanPath]
           in case os_Stat fs resourceOrigPath of
                Inl (NotExist p) \<Rightarrow>
                  (if \<not> IgnoreErrors settings
                   then (fs, Some (ResourceNotFound resourceOrigPath (Title article)))
                   else (fs, None))
              | Inl e \<Rightarrow>
                  (if \<not> IgnoreErrors settings
                   then (fs, Some (StatResourceFailed resourceOrigPath))
                   else (fs, None))
              | Inr Dir \<Rightarrow> (fs, None)
              | Inr (File c) \<Rightarrow>
                  (case os_ReadFile fs resourceOrigPath of
                     Inl e \<Rightarrow>
                       (if \<not> IgnoreErrors settings
                        then (fs, Some (ReadResourceFailed resourceOrigPath))
                        else (fs, None))
                   | Inr input \<Rightarrow>
                       (case os_MkdirAll fs (filepath_Dir (filepath_FromSlash resourceDestPath)) of
                          Inl e \<Rightarrow> (fs, Some (CreateResourceDirectoryFailed resourceDestPath))
                        | Inr fs' \<Rightarrow>
                            (case os_WriteFile fs' resourceDestPath input of
                               Inl e \<Rightarrow> (fs', Some (WriteResourceFailed resourceDestPath))
                             | Inr fs'' \<Rightarrow> (fs'', None))))))"

fun copyResources :: "(string \<Rightarrow> bool) \<Rightarrow> Settings \<Rightarrow> Article \<Rightarrow> string \<Rightarrow> string
    \<Rightarrow> string list \<Rightarrow> FS \<Rightarrow> FS \<times> resolve_error option" where
  "copyResources authorityOk settings article originalDirectory outputDirectory [] fs = (fs, None)"
| "copyResources authorityOk settings article originalDirectory outputDirectory (resource # resources) fs =
     (case copyResource authorityOk settings article originalDirectory outputDirectory resource fs of
        (fs', Some err) \<Rightarrow> (fs', Some err)
      | (fs', None) \<Rightarrow>
          copyResources authorityOk settings article originalDirectory outputDirectory resources fs')"

subsection \<open>The cover image\<close>

text \<open>
  The last block of \<open>CopyHtmlResources\<close>, run when \<open>LinkToSelf\<close> is set: a cover image
  that is given and does not begin with \<open>http\<close> is copied (unless the whole directory
  was), and the stored value becomes the directory of \<open>LinkToSelf\<close> joined with it.
\<close>

definition resolveCoverImage :: "Settings \<Rightarrow> Article \<Rightarrow> string \<Rightarrow> string \<Rightarrow> FS
    \<Rightarrow> FS \<times> (resolve_error + Article)" where
  "resolveCoverImage settings article originalDirectory outputDirectory fs =
     (let originalCoverRel = CoverImage article
      in if originalCoverRel \<noteq> [] \<and> \<not> strings_HasPrefix (strings_ToLower originalCoverRel) ''http''
         then
           (let coverImageOrigPath = filepath_Join [originalDirectory, originalCoverRel];
                coverImageArticleDestPath = filepath_Join [outputDirectory, originalCoverRel];
                coverRootRel = filepath_Join [filepath_Dir (LinkToSelf article), originalCoverRel];
                article' = article\<lparr>CoverImage := filepath_ToSlash coverRootRel\<rparr>
            in if \<not> isHtmlPage article then
                 (case os_ReadFile fs coverImageOrigPath of
                    Inl e \<Rightarrow>
                      (if \<not> IgnoreErrors settings
                       then (fs, Inl (ReadCoverImageFailed coverImageOrigPath (Title article)))
                       else (fs, Inr article'))
                  | Inr file \<Rightarrow>
                      (case os_MkdirAll fs (filepath_Dir coverImageArticleDestPath) of
                         Inl e \<Rightarrow> (fs, Inl (CreateCoverDirectoryFailed coverImageArticleDestPath))
                       | Inr fs' \<Rightarrow>
                           (case os_WriteFile fs' coverImageArticleDestPath file of
                              Inl e \<Rightarrow> (fs', Inl (WriteCoverImageFailed coverImageArticleDestPath))
                            | Inr fs'' \<Rightarrow> (fs'', Inr article'))))
               else (fs, Inr article'))
         else (fs, Inr article))"

subsection \<open>CopyHtmlResources\<close>

text \<open>
  The function mutates the article through a pointer and the file system in place;
  the model returns the file system as it leaves it, and either the error it returns or
  the article as it leaves it. The result is \<open>None\<close> when the copy of a whole
  directory does not return.
\<close>

definition CopyHtmlResources :: "(string \<Rightarrow> bool) \<Rightarrow> Settings \<Rightarrow> Article \<Rightarrow> string list \<Rightarrow> FS
    \<Rightarrow> (FS \<times> (resolve_error + Article)) option" where
  "CopyHtmlResources authorityOk settings article0 resources fs0 =
     (case filepath_Rel (InputPath settings) (OriginalPath article0) of
        Inl e \<Rightarrow> Some (fs0, Inl (RelativePathFailed (OriginalPath article0)))
      | Inr relativeInputPath \<Rightarrow>
          (let article1 = removeDateFromTitle settings article0;
               article2 = addPathTags settings relativeInputPath article1;
               outputPath = computeOutputPath settings relativeInputPath;
               outputDirectory = filepath_Dir outputPath
           in case os_MkdirAll fs0 outputDirectory of
                Inl e \<Rightarrow> Some (fs0, Inl (CreateOutputDirectoryFailed outputDirectory))
              | Inr fs1 \<Rightarrow>
                  (let originalDirectory = filepath_Dir (OriginalPath article2);
                       copied =
                         (if isHtmlPage article2 then
                            (case copyDirectoryRecursively originalDirectory outputDirectory fs1 of
                               None \<Rightarrow> None
                             | Some (fs2, Some e) \<Rightarrow>
                                 (if \<not> IgnoreErrors settings
                                  then Some (fs2, Some (CopyDirectoryFailed (Title article2)))
                                  else Some (fs2, None))
                             | Some (fs2, None) \<Rightarrow> Some (fs2, None))
                          else Some (copyResources authorityOk settings article2 originalDirectory
                                       outputDirectory resources fs1))
                   in case copied of
                        None \<Rightarrow> None
                      | Some (fs2, Some err) \<Rightarrow> Some (fs2, Inl err)
                      | Some (fs2, None) \<Rightarrow>
                          (case filepath_Rel (OutputPath settings) outputPath of
                             Inl e \<Rightarrow> Some (fs2, Inl (RelativeLinkFailed (OutputPath settings) outputPath))
                           | Inr linkToSelf \<Rightarrow>
                               Some (resolveCoverImage settings
                                       (article2\<lparr>LinkToSelf := filepath_ToSlash linkToSelf,
                                                  LinkToSave := filepath_ToSlash outputPath\<rparr>)
                                       originalDirectory outputDirectory fs2)))))"

text \<open>
  The two paths of the loop body, from the article as it is handed in and as it is left:
  \<open>originalDirectory\<close> is the directory of \<open>OriginalPath\<close>, and \<open>outputDirectory\<close> is the
  directory of \<open>outputPath\<close>, which the function stores in \<open>LinkToSave\<close>.
\<close>

definition resourceOrigPath :: "Article \<Rightarrow> string \<Rightarrow> string" where
  "resourceOrigPath article cleanPath = filepath_Join [filepath_Dir (OriginalPath article), cleanPath]"

definition resourceDestPath :: "Article \<Rightarrow> string \<Rightarrow> string" where
  "resourceDestPath article' cleanPath = filepath_Join [filepath_Dir (LinkToSave article'), cleanPath]"

section \<open>Markdown parser: the metadata of MarkdownFile (parse/markdown.go)\<close>

text \<open>
  The Markdown library reads, parses and renders the file. The model begins where
  \<open>MarkdownFile\<close> initialises the article, with what the library and the file system
  have returned: the bytes of the file, the rendered HTML with its tables wrapped, the
  frontmatter, and the modification time of the file. A decoded frontmatter is a map
  from names to values of dynamic type; it is held as the list of its entries in the
  order the loop happens to visit them.
\<close>

datatype fmValue = FmNil | FmString string | FmTime Time | FmSlice "fmValue list" | FmOther

datatype frontmatter = NoFrontmatter | Undecodable | Decoded "(string \<times> fmValue) list"

text \<open>A type assertion \<open>value.(string)\<close> on a value of another type panics.\<close>

datatype markdown_error = FrontmatterDecodeFailed string | FileInfoFailed string | TypeAssertionPanic

fun assertString :: "fmValue \<Rightarrow> markdown_error + string" where
  "assertString (FmString s) = Inr s"
| "assertString v = Inl TypeAssertionPanic"

text \<open>The value of a date field: a string goes through \<open>DateTimeFromString\<close> (a failure
  is logged and the field keeps its value), a timestamp is taken as it is, any other
  value is ignored.\<close>

fun dateOfValue :: "fmValue \<Rightarrow> Time option" where
  "dateOfValue (FmString s) = (case DateTimeFromString s of Inl e \<Rightarrow> None | Inr t \<Rightarrow> Some t)"
| "dateOfValue (FmTime t) = Some t"
| "dateOfValue v = None"

fun appendTags :: "Article \<Rightarrow> fmValue list \<Rightarrow> markdown_error + Article" where
  "appendTags article [] = Inr article"
| "appendTags article (tag # tags) =
     (case assertString tag of
        Inl e \<Rightarrow> Inl e
      | Inr s \<Rightarrow> appendTags (article\<lparr>Tags := Tags article @ [strings_TrimSpace s]\<rparr>) tags)"

definition applyField :: "Article \<Rightarrow> string \<times> fmValue \<Rightarrow> markdown_error + Article" where
  "applyField article entry =
     (let name = strings_ToLower (strings_TrimSpace (fst entry)); v = snd entry
      in if v = FmNil then Inr article
         else if name = ''title'' then
           (case assertString v of Inl e \<Rightarrow> Inl e | Inr s \<Rightarrow> Inr (article\<lparr>Title := s\<rparr>))
         else if name = ''description'' then
           (case assertString v of Inl e \<Rightarrow> Inl e | Inr s \<Rightarrow> Inr (article\<lparr>Description := s\<rparr>))
         else if name = ''created'' then
           (case dateOfValue v of None \<Rightarrow> Inr article | Some t \<Rightarrow> Inr (article\<lparr>Created := t\<rparr>))
         else if name = ''updated'' then
           (case dateOfValue v of None \<Rightarrow> Inr article | Some t \<Rightarrow> Inr (article\<lparr>Updated := t\<rparr>))
         else if name = ''cover_image'' then
           (case assertString v of Inl e \<Rightarrow> Inl e | Inr s \<Rightarrow> Inr (article\<lparr>CoverImage := s\<rparr>))
         else if name = ''share_url'' then
           (case assertString v of Inl e \<Rightarrow> Inl e | Inr s \<Rightarrow> Inr (article\<lparr>ShareUrl := s\<rparr>))
         else if name = ''canonical_url'' then
           (case assertString v of Inl e \<Rightarrow> Inl e | Inr s \<Rightarrow> Inr (article\<lparr>CanonicalUrl := s\<rparr>))
         else if name = ''tags'' then
           (case v of
              FmSlice tags \<Rightarrow> appendTags article tags
            | FmString s \<Rightarrow>
                Inr (article\<lparr>Tags := map strings_TrimSpace
                       (strings_Split (strings_ReplaceAll s (CHR '';'') '','') (CHR '',''))\<rparr>)
            | _ \<Rightarrow> Inr article)
         else Inr article)"

fun applyFields :: "Article \<Rightarrow> (string \<times> fmValue) list \<Rightarrow> markdown_error + Article" where
  "applyFields article [] = Inr article"
| "applyFields article (entry # entries) =
     (case applyField article entry of
        Inl e \<Rightarrow> Inl e
      | Inr article' \<Rightarrow> applyFields article' entries)"

text \<open>The dates and the title that the frontmatter left unset.\<close>

definition fillDefaults :: "string \<Rightarrow> Time \<Rightarrow> Article \<Rightarrow> Article" where
  "fillDefaults path modTime article =
     (let created =
            (if Time_IsZero (Created article)
             then (case DateTimeFromString path of Inr createdFromFile \<Rightarrow> createdFromFile
                                                 | Inl e \<Rightarrow> modTime)
             else Created article);
          updated = (if Time_IsZero (Updated article) then modTime else Updated article);
          title = (if Title article = []
                   then strings_TrimSuffix (filepath_Base path) (filepath_Ext path)
                   else Title article)
      in article\<lparr>Created := created, Updated := updated, Title := title\<rparr>)"

definition MarkdownFile_article :: "string \<Rightarrow> string \<Rightarrow> string \<Rightarrow> frontmatter \<Rightarrow> Time option
    \<Rightarrow> markdown_error + Article" where
  "MarkdownFile_article path data wrappedHtmlContent fm fileInfo =
     (let article = Article_zero\<lparr>OriginalPath := path, TextContent := data,
                                  HtmlContent := wrappedHtmlContent\<rparr>;
          decoded =
            (case fm of
               NoFrontmatter \<Rightarrow> Inr article
             | Undecodable \<Rightarrow> Inl (FrontmatterDecodeFailed path)
             | Decoded entries \<Rightarrow> applyFields article entries)
      in case decoded of
           Inl e \<Rightarrow> Inl e
         | Inr article' \<Rightarrow>
             (case fileInfo of
                None \<Rightarrow> Inl (FileInfoFailed path)
              | Some modTime \<Rightarrow> Inr (fillDefaults path modTime article')))"

text \<open>
  The timestamps a file offers for its creation date: the \<open>created\<close> values of its
  frontmatter that are timestamps or strings with a date, the date in its path when
  there is one, and its modification time.
\<close>

definition createdInFrontmatter :: "string \<times> fmValue \<Rightarrow> Time list" where
  "createdInFrontmatter entry =
     (if strings_ToLower (strings_TrimSpace (fst entry)) = ''created''
      then (case dateOfValue (snd entry) of None \<Rightarrow> [] | Some t \<Rightarrow> [t])
      else [])"

definition dateSources :: "string \<Rightarrow> frontmatter \<Rightarrow> Time \<Rightarrow> Time list" where
  "dateSources path fm modTime =
     (case fm of Decoded entries \<Rightarrow> concat (map createdInFrontmatter entries) | _ \<Rightarrow> [])
     @ (case DateTimeFromString path of Inr t \<Rightarrow> [t] | Inl e \<Rightarrow> [])
     @ [modTime]"

section \<open>HTML parser: the metadata of HTMLFile (parse/html.go)\<close>

text \<open>
  The HTML library parses the file. The model begins where \<open>HTMLFile\<close> initialises the
  article, with what the libraries and the file system have returned: the bytes of the
  file, its plain text, the document (\<open>None\<close> when the parser fails), and the
  modification time of the file. Of the document the function uses the text of the
  first \<open>title\<close> element (when there is one and it has a child), the attributes of
  each \<open>meta\<close> element in the order of the document, each as a key and a value, and
  the rendered content of the body (\<open>None\<close> when rendering fails). The model gives the
  article that the function returns; the list of resource references that it returns
  beside the article comes from the document alone.
\<close>

record html_doc =
  titleData :: "string option"
  metaTags :: "(string \<times> string) list list"
  bodyContent :: "string option"

datatype html_error =
    HtmlParseFailed string
  | CreatedMetaFailed string date_error
  | UpdatedMetaFailed string date_error
  | HtmlFileInfoFailed string

text \<open>The inner loop over the attributes of one \<open>meta\<close> element: the name and the
  content it declares, the last of each winning.\<close>

definition metaKeyVal :: "(string \<times> string) list \<Rightarrow> string \<times> string" where
  "metaKeyVal attrs =
     foldl (\<lambda>kv attr.
              if strings_Trim (strings_ToLower (fst attr)) '' '' = ''name''
              then (strings_Trim (strings_ToLower (snd attr)) '' '', snd kv)
              else if strings_Trim (strings_ToLower (fst attr)) '' '' = ''content''
              then (fst kv, strings_Trim (snd attr) '' '')
              else kv)
       ([], []) attrs"

definition applyMeta :: "Settings \<Rightarrow> string \<Rightarrow> Article \<Rightarrow> (string \<times> string) list
    \<Rightarrow> html_error + Article" where
  "applyMeta settings path article attrs =
     (let key = fst (metaKeyVal attrs); val = snd (metaKeyVal attrs)
      in if key = [] \<or> val = [] then Inr article
         else if key = ''description'' then Inr (article\<lparr>Description := val\<rparr>)
         else if key = ''keywords'' then
           Inr (article\<lparr>Tags := map strings_TrimSpace
                  (strings_Split (strings_ReplaceAll val (CHR '';'') '','') (CHR '',''))\<rparr>)
         else if key = ''created'' then
           (case DateTimeFromString val of
              Inl e \<Rightarrow> if \<not> IgnoreErrors settings then Inl (CreatedMetaFailed path e)
                       else Inr article
            | Inr createdTime \<Rightarrow> Inr (article\<lparr>Created := createdTime\<rparr>))
         else if key = ''updated'' then
           (case DateTimeFromString val of
              Inl e \<Rightarrow> if \<not> IgnoreErrors settings then Inl (UpdatedMetaFailed path e)
                       else Inr article
            | Inr updatedTime \<Rightarrow> Inr (article\<lparr>Updated := updatedTime\<rparr>))
         else if key = ''cover_image'' then Inr (article\<lparr>CoverImage := val\<rparr>)
         else if key = ''link'' then Inr (article\<lparr>ExternalLink := val\<rparr>)
         else if key = ''canonical_url'' then Inr (article\<lparr>CanonicalUrl := val\<rparr>)
         else Inr article)"

fun applyMetas :: "Settings \<Rightarrow> string \<Rightarrow> Article \<Rightarrow> (string \<times> string) list list
    \<Rightarrow> html_error + Article" where
  "applyMetas settings path article [] = Inr article"
| "applyMetas settings path article (attrs # tags) =
     (case applyMeta settings path article attrs of
        Inl e \<Rightarrow> Inl e
      | Inr article' \<Rightarrow> applyMetas settings path article' tags)"

text \<open>The dates that the \<open>meta\<close> elements left unset.\<close>

definition fillDates :: "string \<Rightarrow> Time \<Rightarrow> Article \<Rightarrow> Article" where
  "fillDates path modTime article =
     (let created =
            (if Time_IsZero (Created article)
             then (case DateTimeFromString path of Inr createdFromFile \<Rightarrow> createdFromFile
                                                 | Inl e \<Rightarrow> modTime)
             else Created article);
          updated = (if Time_IsZero (Updated article) then modTime else Updated article)
      in article\<lparr>Created := created, Updated := updated\<rparr>)"

definition HTMLFile_article :: "string \<Rightarrow> Settings \<Rightarrow> string \<Rightarrow> string \<Rightarrow> html_doc option
    \<Rightarrow> Time option \<Rightarrow> html_error + Article" where
  "HTMLFile_article path settings htmlContent textContent htmlTree fileInfo =
     (case htmlTree of
        None \<Rightarrow> Inl (HtmlParseFailed path)
      | Some doc \<Rightarrow>
          (let article0 = Article_zero\<lparr>OriginalPath := path, HtmlContent := htmlContent,
                                        TextContent := textContent\<rparr>;
               article1 = article0\<lparr>BodyContent :=
                            (case bodyContent doc of Some body \<Rightarrow> body | None \<Rightarrow> htmlContent)\<rparr>;
               article2 = (case titleData doc of
                             Some title \<Rightarrow> article1\<lparr>Title := title\<rparr>
                           | None \<Rightarrow> article1);
               article3 = (if Title article2 = []
                           then article2\<lparr>Title := strings_TrimSuffix (filepath_Base path)
                                                     (filepath_Ext path)\<rparr>
                           else article2)
           in case applyMetas settings path article3 (metaTags doc) of
                Inl e \<Rightarrow> Inl e
              | Inr article' \<Rightarrow>
                  (case fileInfo of
                     None \<Rightarrow> Inl (HtmlFileInfoFailed path)
                   | Some modTime \<Rightarrow> Inr (fillDates path modTime article'))))"

text \<open>
  The timestamps an HTML file offers for its creation date: the dates found in the
  content of its \<open>created\<close> meta elements, the date in its path when there is one, and
  its modification time.
\<close>

definition createdInMeta :: "(string \<times> string) list \<Rightarrow> Time list" where
  "createdInMeta attrs =
     (if fst (metaKeyVal attrs) = ''created''
      then (case DateTimeFromString (snd (metaKeyVal attrs)) of Inr t \<Rightarrow> [t] | Inl e \<Rightarrow> [])
      else [])"

definition htmlDateSources :: "string \<Rightarrow> html_doc \<Rightarrow> Time \<Rightarrow> Time list" where
  "htmlDateSources path doc modTime =
     concat (map createdInMeta (metaTags doc))
     @ (case DateTimeFromString path of Inr t \<Rightarrow> [t] | Inl e \<Rightarrow> [])
     @ [modTime]"

section \<open>The article template of Markdown files: FormatMarkdown (parse/markdown.go)\<close>

text \<open>The template is parsed from an asset file; executing it is a function of the
  article, its content and the settings, with \<open>None\<close> for an execution error.\<close>

type_synonym article_template = "Article \<Rightarrow> string \<Rightarrow> Settings \<Rightarrow> string option"

datatype format_error = FormatTemplateFailed

definition FormatMarkdown :: "article_template \<Rightarrow> Article \<Rightarrow> Settings \<Rightarrow> format_error + Article" where
  "FormatMarkdown tmpl article settings =
     (case tmpl article (HtmlContent article) settings of
        None \<Rightarrow> Inl FormatTemplateFailed
      | Some tp \<Rightarrow> Inr (article\<lparr>HtmlContent := tp\<rparr>))"

section \<open>Index and feed generation over the shared collection\<close>

subsection \<open>Slices and their backing arrays\<close>

text \<open>
  A Go slice is a header (the address of a backing array and a length) passed by value;
  two headers with the same address share their elements. The store maps an address to
  the array that lives there. \<open>readSlice\<close> gives the elements a header sees,
  \<open>writeSlice\<close> overwrites them and leaves the rest of the array (the spare capacity)
  and every other array alone.
\<close>

record Slice =
  Data :: nat
  Len :: nat

type_synonym Store = "nat \<Rightarrow> Article list"

definition readSlice :: "Store \<Rightarrow> Slice \<Rightarrow> Article list" where
  "readSlice store s = take (Len s) (store (Data s))"

definition writeSlice :: "Store \<Rightarrow> Slice \<Rightarrow> Article list \<Rightarrow> Store" where
  "writeSlice store s xs = store (Data s := xs @ drop (Len s) (store (Data s)))"

subsection \<open>GenerateHtmlIndex (parse/utils.go)\<close>

text \<open>
  The index template and the feed template are parsed from asset files; executing one
  is a function of the data handed to it, with \<open>None\<close> for an execution error.
  \<open>GenerateHtmlIndex\<close> reads the collection and writes one file.
\<close>

type_synonym index_template = "string list \<Rightarrow> Article list \<Rightarrow> Article list \<Rightarrow> Settings \<Rightarrow> string option"

type_synonym rss_template = "Article list \<Rightarrow> Settings \<Rightarrow> string \<Rightarrow> string option"

datatype generate_error = TemplateExecuteFailed | WriteFileFailed string os_error

fun splitIndex :: "Article list \<Rightarrow> string list \<times> Article list \<times> Article list" where
  "splitIndex [] = ([], [], [])"
| "splitIndex (article # rest) =
     (case splitIndex rest of
        (allTags, pageList, articleList) \<Rightarrow>
          if ''PAGE'' \<in> set (Tags article) then (allTags, article # pageList, articleList)
          else (Tags article @ allTags, pageList, article # articleList))"

definition GenerateHtmlIndex :: "index_template \<Rightarrow> Store \<Rightarrow> Slice \<Rightarrow> Settings \<Rightarrow> FS
    \<Rightarrow> FS \<times> (generate_error + unit)" where
  "GenerateHtmlIndex tmpl store articles settings fs =
     (case splitIndex (readSlice store articles) of
        (allTags, pageList, articleList) \<Rightarrow>
          (case tmpl allTags pageList articleList settings of
             None \<Rightarrow> (fs, Inl TemplateExecuteFailed)
           | Some tp \<Rightarrow>
               (let filePath = filepath_Join [OutputPath settings, IndexName settings]
                in case os_WriteFile fs filePath tp of
                     Inl e \<Rightarrow> (fs, Inl (WriteFileFailed filePath e))
                   | Inr fs' \<Rightarrow> (fs', Inr ()))))"

subsection \<open>GenerateRSS (parse/rss.go)\<close>

text \<open>
  \<open>GenerateRSS\<close> sorts the slice it is given, through \<open>slices.SortFunc\<close>, which works
  on the backing array; then it executes the template on that slice and writes
  \<open>rss.xml\<close> into the output directory (the field \<open>OutputDirectory\<close> of this file is
  the field \<open>OutputPath\<close> of the settings). \<open>buildDate\<close> is the formatted time of the
  call. The store is returned in every case: the sort happens before anything can fail.
\<close>

definition GenerateRSS :: "rss_template \<Rightarrow> string \<Rightarrow> Store \<Rightarrow> Slice \<Rightarrow> Settings \<Rightarrow> FS
    \<Rightarrow> Store \<times> FS \<times> (generate_error + unit)" where
  "GenerateRSS tmpl buildDate store articles settings fs =
     (let store' = writeSlice store articles
            (slices_SortFunc (\<lambda>a b. Time_Compare (Created b) (Created a))
               (readSlice store articles))
      in case tmpl (readSlice store' articles) settings buildDate of
           None \<Rightarrow> (store', fs, Inl TemplateExecuteFailed)
         | Some tp \<Rightarrow>
             (let filePath = filepath_Join [OutputPath settings, ''rss.xml'']
              in case os_WriteFile fs filePath tp of
                   Inl e \<Rightarrow> (store', fs, Inl (WriteFileFailed filePath e))
                 | Inr fs' \<Rightarrow> (store', fs', Inr ())))"

subsection \<open>The end of buildWebsite (main.go)\<close>

text \<open>
  After the workers have filled the collection, \<open>buildWebsite\<close> sorts it in place as
  the settings say, writes the search index (\<open>searchIndexJSON\<close>, the marshalled
  entries), generates the index page and then the feed, each from the same slice.
  The steps after the feed (style sheet, scripts, icons) do not read the collection.
\<close>

datatype build_error =
    SearchIndexFailed os_error
  | HtmlIndexFailed generate_error
  | RSSFailed generate_error

definition buildWebsite_finish :: "index_template \<Rightarrow> rss_template \<Rightarrow> string \<Rightarrow> string
    \<Rightarrow> Store \<Rightarrow> Slice \<Rightarrow> Settings \<Rightarrow> FS \<Rightarrow> Store \<times> FS \<times> (build_error + unit)" where
  "buildWebsite_finish tmplIndex tmplRSS searchIndexJSON buildDate store articles settings fs =
     (let store1 = writeSlice store articles
            (sortArticles (Sort settings) (readSlice store articles));
          searchIndexPath = filepath_Join [OutputPath settings, ''search_index.json'']
      in case os_WriteFile fs searchIndexPath searchIndexJSON of
           Inl e \<Rightarrow> (store1, fs, Inl (SearchIndexFailed e))
         | Inr fs1 \<Rightarrow>
             (case GenerateHtmlIndex tmplIndex store1 articles settings fs1 of
                (fs2, Inl e) \<Rightarrow> (store1, fs2, Inl (HtmlIndexFailed e))
              | (fs2, Inr u) \<Rightarrow>
                  (case GenerateRSS tmplRSS buildDate store1 articles settings fs2 of
                     (store2, fs3, Inl e) \<Rightarrow> (store2, fs3, Inl (RSSFailed e))
                   | (store2, fs3, Inr v) \<Rightarrow> (store2, fs3, Inr ()))))"


section \<open>A small site\<close>

text \<open>
  A content directory with a logo at its root and, in a subdirectory, one dated
  article, an image next to it and a cover image; the settings of a default run; an
  authority check that accepts every authority.
\<close>

definition acceptAuthority :: "string \<Rightarrow> bool" where
  "acceptAuthority authority = True"

definition demoSettings :: Settings where
  "demoSettings = \<lparr>InputPath = ''content'', OutputPath = ''public'', IndexName = ''index.html'',
     DoNotExtractTagsFromPaths = False, DoNotRemoveDateFromPaths = False,
     DoNotRemoveDateFromTitles = False, Sort = ''date-created'', IgnoreErrors = False\<rparr>"

definition demoFS :: FS where
  "demoFS = [(''content'', Dir), (''content/logo.png'', File ''LOGO''), (''content/blog'', Dir),
     (''content/blog/2024-01-02 my post.md'', File ''# my post''),
     (''content/blog/img'', Dir), (''content/blog/img/x.png'', File ''PNG''),
     (''content/blog/cover.png'', File ''COVER'')]"

definition demoArticle :: Article where
  "demoArticle = Article_zero\<lparr>Title := ''2024-01-02 my post'',
     OriginalPath := ''content/blog/2024-01-02 my post.md'', CoverImage := ''cover.png''\<rparr>"

text \<open>
  A collection of three articles in an array with one spare element, the slice that
  sees the three, an output directory, and two templates that print one line for each
  article they are given.
\<close>

definition demoCollection :: "Article list" where
  "demoCollection =
     [Article_zero\<lparr>Title := ''b'', Created := time_Date 2024 2 1 0 0 0 0\<rparr>,
      Article_zero\<lparr>Title := ''c'', Created := time_Date 2024 3 1 0 0 0 0\<rparr>,
      Article_zero\<lparr>Title := ''a'', Created := time_Date 2024 1 1 0 0 0 0\<rparr>]"

definition demoStore :: Store where
  "demoStore = (\<lambda>address. [])(7 := demoCollection @ [Article_zero])"

definition demoSlice :: Slice where
  "demoSlice = \<lparr>Data = 7, Len = 3\<rparr>"

definition demoOutput :: FS where
  "demoOutput = [(''public'', Dir)]"

definition demoIndexTemplate :: index_template where
  "demoIndexTemplate allTags pageList articleList settings =
     Some (concat (map (\<lambda>article. ''<li>'' @ Title article @ ''</li>'') articleList))"

definition demoRssTemplate :: rss_template where
  "demoRssTemplate articles settings buildDate =
     Some (concat (map (\<lambda>article. ''<item>'' @ Title article @ ''</item>'') articles))"

text \<open>
  An HTML document with a title, a description and a creation date in its \<open>meta\<close>
  elements, and an article template that wraps the content.
\<close>

definition demoDoc :: html_doc where
  "demoDoc = \<lparr>titleData = Some ''About'',
     metaTags = [[(''name'', ''description''), (''content'', ''about this site'')],
                 [(''name'', ''Created''), (''content'', '' 2024-01-02 '')]],
     bodyContent = Some ''<p>hello</p>''\<rparr>"

definition demoArticleTemplate :: article_template where
  "demoArticleTemplate article content settings = Some (''<article>'' @ content @ ''</article>'')"

section \<open>Properties of the sort\<close>

lemma mset_insertLeft: "mset (insertLeft lt x ys) = add_mset x (mset ys)"
  by (induction ys) auto

lemma mset_foldl_insertLeft:
  "mset (foldl (\<lambda>acc x. insertLeft lt x acc) acc xs) = mset acc + mset xs"
  by (induction xs arbitrary: acc) (auto simp: mset_insertLeft)

lemma mset_insertionSort: "mset (insertionSort lt xs) = mset xs"
  by (simp add: insertionSort_def mset_foldl_insertLeft)

text \<open>
  When the comparison is \<open>key a < key b\<close> for a key in a linear order, the sorted part
  (held last element first) stays descending by key, so the result ascends by key.
\<close>

lemma set_insertLeft: "set (insertLeft lt x ys) = insert x (set ys)"
  by (induction ys) auto

lemma sorted_insertLeft:
  fixes key :: "'a \<Rightarrow> 'k::linorder"
  assumes "sorted (rev (map key ys))"
  shows "sorted (rev (map key (insertLeft (\<lambda>a b. key a < key b) x ys)))"
  using assms
proof (induction ys)
  case Nil
  then show ?case by simp
next
  case (Cons y ys)
  show ?case
  proof (cases "key x < key y")
    case True
    have tl: "sorted (rev (map key ys))"
      using Cons.prems by (simp add: sorted_append)
    have below: "\<forall>k \<in> set (map key ys). k \<le> key y"
      using Cons.prems by (auto simp: sorted_append)
    have "sorted (rev (map key (insertLeft (\<lambda>a b. key a < key b) x ys)))"
      by (rule Cons.IH [OF tl])
    moreover have "\<forall>k \<in> set (map key (insertLeft (\<lambda>a b. key a < key b) x ys)). k \<le> key y"
      using below True by (auto simp: set_insertLeft)
    ultimately show ?thesis
      using True by (simp add: sorted_append)
  next
    case False
    then show ?thesis
      using Cons.prems by (auto simp: sorted_append)
  qed
qed

lemma sorted_foldl_insertLeft:
  fixes key :: "'a \<Rightarrow> 'k::linorder"
  assumes "sorted (rev (map key acc))"
  shows "sorted (rev (map key (foldl (\<lambda>acc x. insertLeft (\<lambda>a b. key a < key b) x acc) acc xs)))"
  using assms
  by (induction xs arbitrary: acc) (auto intro: sorted_insertLeft)

lemma sorted_insertionSort:
  fixes key :: "'a \<Rightarrow> 'k::linorder"
  shows "sorted (map key (insertionSort (\<lambda>a b. key a < key b) xs))"
  using sorted_foldl_insertLeft [of key "[]" xs]
  by (simp add: insertionSort_def rev_map)

text \<open>A list of three elements with strictly increasing keys is the only ascending
  arrangement of its elements.\<close>

lemma sorted_perm3_unique:
  fixes key :: "'a \<Rightarrow> 'k::linorder"
  assumes perm: "mset r = mset [a1, a2, a3]"
    and srt: "sorted (map key r)"
    and lt: "key a1 < key a2" "key a2 < key a3"
  shows "r = [a1, a2, a3]"
proof -
  have len: "length r = 3"
    using arg_cong [OF perm, of size] by simp
  then obtain x y z where r: "r = [x, y, z]"
    by (auto simp: numeral_3_eq_3 length_Suc_conv)
  have keys: "key x \<le> key y" "key y \<le> key z"
    using srt r by auto
  have sets: "{x, y, z} = {a1, a2, a3}"
    using arg_cong [OF perm, of set_mset] r by simp
  have ne: "a1 \<noteq> a2" "a2 \<noteq> a3" "a1 \<noteq> a3"
    using lt by auto
  have "distinct r"
    using mset_eq_imp_distinct_iff [OF perm] ne by simp
  then have dist: "x \<noteq> y" "y \<noteq> z" "x \<noteq> z"
    using r by auto
  have x: "x = a1 \<or> x = a2 \<or> x = a3" and y: "y = a1 \<or> y = a2 \<or> y = a3"
    and z: "z = a1 \<or> z = a2 \<or> z = a3"
    using sets by auto
  have "x = a1 \<and> y = a2 \<and> z = a3"
    using x y z dist keys lt by (elim disjE) auto
  then show ?thesis
    using r by simp
qed

text \<open>
  Claim C2. Three articles with creation dates D1 < D2 < D3, in whatever order the
  workers appended them: sort order \<open>reverse-date-created\<close> yields [D1, D2, D3]
  (ascending), and \<open>date-created\<close> yields [D3, D2, D1] (most recent first).
\<close>

theorem C2_sort_three_by_created:
  assumes "mset articles = mset [a1, a2, a3]"
    and "Created a1 < Created a2" and "Created a2 < Created a3"
  shows "sortArticles SortReverseDateCreated articles = [a1, a2, a3]
       \<and> sortArticles SortDateCreated articles = [a3, a2, a1]"
proof -
  have asc: "sortArticles SortReverseDateCreated articles
           = insertionSort (\<lambda>a b. Created a < Created b) articles"
    by (simp add: sortArticles_def sort_Slice_def Time_Before_def
        SortReverseDateCreated_def SortDateCreated_def)
  have desc: "sortArticles SortDateCreated articles
           = insertionSort (\<lambda>a b. - Created a < - Created b) articles"
    by (simp add: sortArticles_def sort_Slice_def Time_After_def SortDateCreated_def)
  have "insertionSort (\<lambda>a b. Created a < Created b) articles = [a1, a2, a3]"
    using assms sorted_insertionSort [of Created articles]
    by (intro sorted_perm3_unique [where key = Created]) (simp_all add: mset_insertionSort)
  moreover have "mset articles = mset [a3, a2, a1]"
    using assms(1) by (simp add: add_mset_commute)
  then have "insertionSort (\<lambda>a b. - Created a < - Created b) articles = [a3, a2, a1]"
    using assms(2,3) sorted_insertionSort [of "\<lambda>a. - Created a" articles]
    by (intro sorted_perm3_unique [where key = "\<lambda>a. - Created a"])
       (simp_all add: mset_insertionSort)
  ultimately show ?thesis
    using asc desc by simp
qed

theorem C2_sort_three_by_created_witness:
  "mset [Article_zero\<lparr>Created := 30\<rparr>, Article_zero\<lparr>Created := 10\<rparr>,
         Article_zero\<lparr>Created := 20\<rparr>]
     = mset [Article_zero\<lparr>Created := 10\<rparr>, Article_zero\<lparr>Created := 20\<rparr>,
             Article_zero\<lparr>Created := 30\<rparr>]
   \<and> Created (Article_zero\<lparr>Created := 10\<rparr>) < Created (Article_zero\<lparr>Created := 20\<rparr>)
   \<and> Created (Article_zero\<lparr>Created := 20\<rparr>) < Created (Article_zero\<lparr>Created := 30\<rparr>)
   \<and> sortArticles SortReverseDateCreated
         [Article_zero\<lparr>Created := 30\<rparr>, Article_zero\<lparr>Created := 10\<rparr>,
          Article_zero\<lparr>Created := 20\<rparr>]
       = [Article_zero\<lparr>Created := 10\<rparr>, Article_zero\<lparr>Created := 20\<rparr>,
          Article_zero\<lparr>Created := 30\<rparr>]
   \<and> sortArticles SortDateCreated
         [Article_zero\<lparr>Created := 30\<rparr>, Article_zero\<lparr>Created := 10\<rparr>,
          Article_zero\<lparr>Created := 20\<rparr>]
       = [Article_zero\<lparr>Created := 30\<rparr>, Article_zero\<lparr>Created := 20\<rparr>,
          Article_zero\<lparr>Created := 10\<rparr>]"
proof -
  have perm: "mset [Article_zero\<lparr>Created := 30\<rparr>, Article_zero\<lparr>Created := 10\<rparr>,
         Article_zero\<lparr>Created := 20\<rparr>]
     = mset [Article_zero\<lparr>Created := 10\<rparr>, Article_zero\<lparr>Created := 20\<rparr>,
             Article_zero\<lparr>Created := 30\<rparr>]"
    by (simp add: add_mset_commute)
  show ?thesis
    using C2_sort_three_by_created [OF perm] perm by simp
qed

section \<open>Properties of the string functions\<close>

declare trimSpaceLeft.simps [simp del] trimSpaceRight.simps [simp del] fieldsFrom.simps [simp del]

lemma set_strings_Trim: "set (strings_Trim s cutset) \<subseteq> set s"
proof -
  have "set (strings_Trim s cutset) \<subseteq> set (dropWhile (\<lambda>c. c \<in> set cutset) s)"
    unfolding strings_Trim_def using set_dropWhileD by fastforce
  also have "\<dots> \<subseteq> set s"
    using set_dropWhileD by fastforce
  finally show ?thesis .
qed

lemma strings_Trim_id:
  assumes "\<forall>c \<in> set s. c \<notin> set cutset"
  shows "strings_Trim s cutset = s"
proof -
  have "dropWhile (\<lambda>c. c \<in> set cutset) s = s"
    using assms by (cases s) auto
  moreover have "dropWhile (\<lambda>c. c \<in> set cutset) (rev s) = rev s"
    using assms by (cases "rev s") (auto simp: rev_is_Nil_conv dest: arg_cong [where f = set])
  ultimately show ?thesis
    by (simp add: strings_Trim_def)
qed

lemma set_strings_Join:
  "set (strings_Join ps sep) \<subseteq> (\<Union>p \<in> set ps. set p) \<union> set sep"
  by (induction ps sep rule: strings_Join.induct) auto

lemma strings_Split_not_Nil: "strings_Split s sep \<noteq> []"
  by (induction s) (auto split: list.splits)

lemma set_strings_Split: "p \<in> set (strings_Split s sep) \<Longrightarrow> set p \<subseteq> set s"
proof (induction s arbitrary: p)
  case Nil
  then show ?case by simp
next
  case (Cons c s)
  show ?case
  proof (cases "c = sep")
    case True
    then show ?thesis
      using Cons by auto
  next
    case False
    obtain q qs where sp: "strings_Split s sep = q # qs"
      using strings_Split_not_Nil [of s sep] by (cases "strings_Split s sep") auto
    have "p = c # q \<or> p \<in> set qs"
      using Cons.prems False sp by simp
    then show ?thesis
      using Cons.IH [of q] Cons.IH [of p] sp by auto
  qed
qed

lemma strings_Join_Cons: "strings_Join ((c # p) # ps) sep = c # strings_Join (p # ps) sep"
  by (cases ps) auto

lemma strings_Join_Split: "strings_Join (strings_Split s sep) [sep] = s"
proof (induction s)
  case Nil
  then show ?case by simp
next
  case (Cons c s)
  obtain p ps where sp: "strings_Split s sep = p # ps"
    using strings_Split_not_Nil [of s sep] by (cases "strings_Split s sep") auto
  show ?case
    using Cons sp by (auto simp: strings_Join_Cons)
qed

lemma set_strings_ReplaceAll:
  "set (strings_ReplaceAll s old new) \<subseteq> (set s - {old}) \<union> set new"
  by (induction s) auto

lemma strings_ReplaceAll_absent: "old \<notin> set s \<Longrightarrow> strings_ReplaceAll s old new = s"
  by (induction s) auto

lemma spaceWidth_zero_hd: "spaceWidth s = 0 \<Longrightarrow> s \<noteq> [] \<Longrightarrow> \<not> isAsciiSpace (hd s)"
  by (auto simp: spaceWidth_def split: if_splits)

lemma set_fieldsFrom:
  "p \<in> set (fieldsFrom cur s) \<Longrightarrow> set p \<subseteq> set cur \<union> {c \<in> set s. \<not> isAsciiSpace c}"
proof (induction cur s arbitrary: p rule: fieldsFrom.induct)
  case (1 cur s)
  show ?case
  proof (cases "s = []")
    case True
    then show ?thesis
      using "1.prems" by (subst (asm) fieldsFrom.simps) (auto split: if_splits)
  next
    case ne: False
    show ?thesis
    proof (cases "spaceWidth s = 0")
      case True
      have "p \<in> set (fieldsFrom (hd s # cur) (tl s))"
        using "1.prems" ne True by (subst (asm) fieldsFrom.simps) simp
      then have "set p \<subseteq> set (hd s # cur) \<union> {c \<in> set (tl s). \<not> isAsciiSpace c}"
        using "1.IH"(1) ne True by blast
      moreover have "\<not> isAsciiSpace (hd s)"
        using True ne by (rule spaceWidth_zero_hd)
      moreover have "set s = insert (hd s) (set (tl s))"
        using ne by (cases s) auto
      ultimately show ?thesis by auto
    next
      case False
      have "p \<in> set ((if cur = [] then [] else [rev cur]) @ fieldsFrom [] (drop (spaceWidth s) s))"
        using "1.prems" ne False by (subst (asm) fieldsFrom.simps) simp
      then consider "p = rev cur" | "p \<in> set (fieldsFrom [] (drop (spaceWidth s) s))"
        by (auto split: if_splits)
      then show ?thesis
      proof cases
        case 1
        then show ?thesis by auto
      next
        case 2
        then have "set p \<subseteq> set [] \<union> {c \<in> set (drop (spaceWidth s) s). \<not> isAsciiSpace c}"
          using "1.IH"(2) ne False by blast
        then show ?thesis
          using set_drop_subset [of "spaceWidth s" s] by auto
      qed
    qed
  qed
qed

text \<open>A string of ASCII bytes that are not white space is one field.\<close>

lemma unicodeSpaces2_lead: "t \<in> set unicodeSpaces2 \<Longrightarrow> t \<noteq> [] \<and> 128 \<le> (of_char (hd t) :: nat)"
  by (auto simp: unicodeSpaces2_def)

lemma unicodeSpaces3_lead: "t \<in> set unicodeSpaces3 \<Longrightarrow> t \<noteq> [] \<and> 128 \<le> (of_char (hd t) :: nat)"
  by (auto simp: unicodeSpaces3_def)

lemma spaceWidth_plain:
  assumes "plainByte c"
  shows "spaceWidth (c # s) = 0"
proof -
  have "take 2 (c # s) \<notin> set unicodeSpaces2"
  proof
    assume "take 2 (c # s) \<in> set unicodeSpaces2"
    from unicodeSpaces2_lead [OF this] show False
      using assms by (simp add: plainByte_def)
  qed
  moreover have "take 3 (c # s) \<notin> set unicodeSpaces3"
  proof
    assume "take 3 (c # s) \<in> set unicodeSpaces3"
    from unicodeSpaces3_lead [OF this] show False
      using assms by (simp add: plainByte_def)
  qed
  ultimately show ?thesis
    using assms by (simp add: spaceWidth_def plainByte_def)
qed

lemma fieldsFrom_plain:
  "\<forall>c \<in> set s. plainByte c \<Longrightarrow>
   fieldsFrom cur s = (if rev cur @ s = [] then [] else [rev cur @ s])"
proof (induction s arbitrary: cur)
  case Nil
  then show ?case by (subst fieldsFrom.simps) simp
next
  case (Cons c s)
  have "spaceWidth (c # s) = 0"
    using Cons.prems by (simp add: spaceWidth_plain)
  then have "fieldsFrom cur (c # s) = fieldsFrom (c # cur) s"
    by (subst fieldsFrom.simps) simp
  then show ?case
    using Cons by simp
qed

section \<open>Properties of cleanString\<close>

lemma cleanString_chars: "c \<in> set (cleanString x) \<Longrightarrow> inSlugClassDot c"
proof -
  define url2 where "url2 = strings_ReplaceAll (strings_ReplaceAll x (CHR ''#'') ''sharp'') (CHR ''+'') ''plus''"
  define url4 where "url4 = strings_ReplaceAll (nonAlphanumericRegex_ReplaceAllString url2) (CHR 0x5C) ''/''"
  define url5 where "url5 = strings_Join (map (\<lambda>piece. strings_Trim piece ''-_ '') (strings_Split url4 (CHR ''/''))) ''/''"
  define url6 where "url6 = strings_Join (map (\<lambda>piece. strings_Trim piece ''-_ '') (strings_Fields url5)) ''-''"
  have cs: "cleanString x = strings_Trim url6 ''-''"
    by (simp add: cleanString_def url2_def url4_def url5_def url6_def)
  have k4: "isAlnum d \<or> d = CHR ''/'' \<or> d = CHR ''.'' \<or> d = CHR '' ''" if "d \<in> set url4" for d
  proof -
    have "d \<in> (set (nonAlphanumericRegex_ReplaceAllString url2) - {CHR 0x5C}) \<union> set ''/''"
      using that set_strings_ReplaceAll unfolding url4_def by blast
    then show ?thesis
      by (auto simp: nonAlphanumericRegex_ReplaceAllString_def keptByRegex_def)
  qed
  have k5: "isAlnum d \<or> d = CHR ''/'' \<or> d = CHR ''.'' \<or> d = CHR '' ''" if "d \<in> set url5" for d
  proof -
    have "d \<in> (\<Union>p \<in> set (map (\<lambda>piece. strings_Trim piece ''-_ '') (strings_Split url4 (CHR ''/''))). set p) \<union> set ''/''"
      using that set_strings_Join unfolding url5_def by blast
    then consider "d = CHR ''/''" | p where "p \<in> set (strings_Split url4 (CHR ''/''))" "d \<in> set (strings_Trim p ''-_ '')"
      by auto
    then show ?thesis
    proof cases
      case 1
      then show ?thesis by simp
    next
      case 2
      then have "d \<in> set url4"
        using set_strings_Trim set_strings_Split by blast
      then show ?thesis by (rule k4)
    qed
  qed
  have k6: "inSlugClassDot d" if "d \<in> set url6" for d
  proof -
    have "d \<in> (\<Union>p \<in> set (map (\<lambda>piece. strings_Trim piece ''-_ '') (strings_Fields url5)). set p) \<union> set ''-''"
      using that set_strings_Join unfolding url6_def by blast
    then consider "d = CHR ''-''" | p where "p \<in> set (fieldsFrom [] url5)" "d \<in> set (strings_Trim p ''-_ '')"
      by (auto simp: strings_Fields_def)
    then show ?thesis
    proof cases
      case 1
      then show ?thesis by (simp add: inSlugClassDot_def)
    next
      case 2
      then have "d \<in> set p"
        using set_strings_Trim by blast
      then have "d \<in> set url5" "\<not> isAsciiSpace d"
        using set_fieldsFrom [OF 2(1)] by auto
      then show ?thesis
        using k5 [of d] by (auto simp: inSlugClassDot_def isAsciiSpace_def)
    qed
  qed
  assume "c \<in> set (cleanString x)"
  then have "c \<in> set url6"
    using cs set_strings_Trim by fastforce
  then show ?thesis by (rule k6)
qed

lemma inSlugClassDot_facts:
  assumes "inSlugClassDot c"
  shows "c \<noteq> CHR ''#''" "c \<noteq> CHR ''+''" "c \<noteq> CHR 0x5C" "c \<noteq> CHR ''_''" "c \<noteq> CHR '' ''"
    "keptByRegex c = (c \<noteq> CHR ''-'')" "c \<noteq> CHR ''-'' \<Longrightarrow> plainByte c"
  using assms
  by (auto simp: inSlugClassDot_def keptByRegex_def isAlnum_def isDigit_def isUpper_def
      isLower_def plainByte_def isAsciiSpace_def)

text \<open>On a string of slug characters, \<open>cleanString\<close> does nothing but delete the dashes.\<close>

lemma cleanString_on_slug:
  assumes slug: "\<forall>c \<in> set y. inSlugClassDot c"
  shows "cleanString y = filter (\<lambda>c. c \<noteq> CHR ''-'') y"
proof -
  define z where "z = filter (\<lambda>c. c \<noteq> CHR ''-'') y"
  have zy: "inSlugClassDot c \<and> c \<noteq> CHR ''-''" if "c \<in> set z" for c
    using that slug by (simp add: z_def)
  have "CHR ''#'' \<notin> set y"
    using slug inSlugClassDot_facts(1) by blast
  moreover have "CHR ''+'' \<notin> set y"
    using slug inSlugClassDot_facts(2) by blast
  ultimately have u2: "strings_ReplaceAll (strings_ReplaceAll y (CHR ''#'') ''sharp'') (CHR ''+'') ''plus'' = y"
    by (simp add: strings_ReplaceAll_absent)
  have "keptByRegex c = (c \<noteq> CHR ''-'')" if "c \<in> set y" for c
    using that slug inSlugClassDot_facts(6) by blast
  then have u3: "nonAlphanumericRegex_ReplaceAllString y = z"
    unfolding nonAlphanumericRegex_ReplaceAllString_def z_def
    by (intro filter_cong) auto
  have "CHR 0x5C \<notin> set z"
    using zy inSlugClassDot_facts(3) by blast
  then have u4: "strings_ReplaceAll z (CHR 0x5C) ''/'' = z"
    by (rule strings_ReplaceAll_absent)
  have notcut: "c \<notin> set ''-_ ''" if "c \<in> set z" for c
    using zy [OF that] inSlugClassDot_facts(4,5) [of c] by simp
  have "map (\<lambda>piece. strings_Trim piece ''-_ '') (strings_Split z (CHR ''/'')) = strings_Split z (CHR ''/'')"
  proof (intro map_idI strings_Trim_id ballI)
    fix p c
    assume "p \<in> set (strings_Split z (CHR ''/''))" "c \<in> set p"
    then have "c \<in> set z"
      using set_strings_Split by blast
    then show "c \<notin> set ''-_ ''" by (rule notcut)
  qed
  then have u5: "strings_Join (map (\<lambda>piece. strings_Trim piece ''-_ '') (strings_Split z (CHR ''/''))) ''/'' = z"
    using strings_Join_Split [of z "CHR ''/''"] by simp
  have "plainByte c" if "c \<in> set z" for c
    using zy [OF that] inSlugClassDot_facts(7) [of c] by simp
  then have "fieldsFrom [] z = (if rev [] @ z = [] then [] else [rev [] @ z])"
    by (intro fieldsFrom_plain) blast
  then have fields: "strings_Fields z = (if z = [] then [] else [z])"
    by (simp add: strings_Fields_def)
  have trimz: "strings_Trim z ''-_ '' = z"
    using notcut by (intro strings_Trim_id) blast
  have u6: "strings_Join (map (\<lambda>piece. strings_Trim piece ''-_ '') (strings_Fields z)) ''-'' = z"
    using fields trimz by simp
  have "\<forall>c \<in> set z. c \<notin> set ''-''"
    by (simp add: z_def)
  then have u7: "strings_Trim z ''-'' = z"
    by (rule strings_Trim_id)
  show ?thesis
    unfolding z_def [symmetric]
    by (simp add: cleanString_def u2 u3 u4 u5 u6 u7)
qed

text \<open>
  Claim C3: \<open>cleanString\<close> should be idempotent. The pattern deletes every dash and
  underscore before the pieces are trimmed of them, so the dash that joins two words of
  the first pass is deleted by the second: the slug of \<open>a b\<close> is \<open>a-b\<close>, and the slug of
  that is \<open>ab\<close>. For the same reason the slug of \<open>my-cool-story\<close> is \<open>mycoolstory\<close> and an
  underscore is deleted, where the documentation of the program shows the first kept
  and says that underscores become dashes.
\<close>

theorem C3_cleanString_not_idempotent:
  "cleanString ''a b'' = ''a-b''
   \<and> cleanString (cleanString ''a b'') = ''ab''
   \<and> cleanString ''my-cool-story'' = ''mycoolstory''
   \<and> cleanString ''my_post'' = ''mypost''"
  by code_simp

text \<open>The extent of this: a second pass deletes exactly the dashes of the slug, and a
  third pass changes nothing.\<close>

lemma cleanString_second_pass:
  "cleanString (cleanString x) = filter (\<lambda>c. c \<noteq> CHR ''-'') (cleanString x)
   \<and> cleanString (cleanString (cleanString x)) = cleanString (cleanString x)"
proof -
  have slug: "\<forall>c \<in> set (cleanString x). inSlugClassDot c"
    using cleanString_chars by blast
  have two: "cleanString (cleanString x) = filter (\<lambda>c. c \<noteq> CHR ''-'') (cleanString x)"
    using slug by (rule cleanString_on_slug)
  have "\<forall>c \<in> set (cleanString (cleanString x)). inSlugClassDot c"
    using cleanString_chars by blast
  then have "cleanString (cleanString (cleanString x))
           = filter (\<lambda>c. c \<noteq> CHR ''-'') (cleanString (cleanString x))"
    by (rule cleanString_on_slug)
  then have three: "cleanString (cleanString (cleanString x)) = cleanString (cleanString x)"
    by (simp add: two)
  show ?thesis
    using two three by simp
qed

text \<open>
  Claim C4 states that the output has no character outside \<open>[A-Za-z0-9/-]\<close>. The
  pattern keeps the dot, so a dot of the input reaches the output.
\<close>

theorem C4_dot_survives_counterexample:
  "\<not> list_all inSlugClass (cleanString ''a.b'')"
  by code_simp

text \<open>
  Claim C4, amended. For every input string, each character of the output of
  \<open>cleanString\<close> is an ASCII letter, a digit, a slash, a dash or a dot.
\<close>

theorem C4_output_alphabet: "list_all inSlugClassDot (cleanString x)"
  using cleanString_chars by (auto simp: list_all_iff)

section \<open>Properties of the date patterns\<close>

declare ReplaceAllString_empty.simps [simp del]

lemma firstSome_SomeD: "firstSome f xs = Some y \<Longrightarrow> \<exists>x \<in> set xs. f x = Some y"
  by (induction xs) (auto split: option.splits)

lemma firstSome_None: "(firstSome f xs = None) = (\<forall>x \<in> set xs. f x = None)"
  by (induction xs) (auto split: option.splits)

lemma candidates_Digits:
  "n \<in> set (candidates (Digits name lo hi) s) \<Longrightarrow>
     lo \<le> n \<and> n \<le> hi \<and> n \<le> length s \<and> list_all isDigit (take n s)"
  by auto

lemma capture_good:
  assumes "goodItem it" "n \<in> set (candidates it s)"
  shows "map fst (capture it (take n s)) = itemNames it
       \<and> (\<forall>t \<in> set (map snd (capture it (take n s))). goodNum t)"
proof (cases it)
  case (Digits name lo hi)
  have c: "lo \<le> n \<and> n \<le> hi \<and> n \<le> length s \<and> list_all isDigit (take n s)"
    using assms(2) unfolding Digits by (rule candidates_Digits)
  have g: "1 \<le> lo" "hi \<le> 4"
    using assms(1) unfolding Digits by simp_all
  have "length (take n s) = n"
    using c by simp
  moreover have "1 \<le> n" "n \<le> 4"
    using c g by linarith+
  ultimately have "goodNum (take n s)"
    unfolding goodNum_def using c by (metis length_0_conv not_one_le_zero)
  then show ?thesis
    unfolding Digits by simp
next
  case NonDigits
  show ?thesis unfolding NonDigits by simp
next
  case (Lit c)
  show ?thesis unfolding Lit by simp
qed

lemma matchHere_caps:
  "list_all goodItem p \<Longrightarrow> matchHere p s = Some (caps, rest) \<Longrightarrow>
     map fst caps = groupNames p \<and> (\<forall>t \<in> set (map snd caps). goodNum t)"
proof (induction p arbitrary: s caps rest)
  case Nil
  then show ?case by (simp add: groupNames_def)
next
  case (Cons it its)
  from Cons.prems(2) obtain n where n: "n \<in> set (candidates it s)"
    and m: "(case matchHere its (drop n s) of None \<Rightarrow> None
              | Some (caps', rest') \<Rightarrow> Some (capture it (take n s) @ caps', rest')) = Some (caps, rest)"
    using firstSome_SomeD by fastforce
  then obtain caps' where sub: "matchHere its (drop n s) = Some (caps', rest)"
    and caps: "caps = capture it (take n s) @ caps'"
    by (auto split: option.splits)
  have ih: "map fst caps' = groupNames its \<and> (\<forall>t \<in> set (map snd caps'). goodNum t)"
    using Cons.IH [OF _ sub] Cons.prems(1) by simp
  have "goodItem it"
    using Cons.prems(1) by simp
  from capture_good [OF this n] ih caps show ?case
    by (auto simp: groupNames_def)
qed

lemma FindStringSubmatch_caps:
  "list_all goodItem p \<Longrightarrow> FindStringSubmatch p s = Some caps \<Longrightarrow>
     map fst caps = groupNames p \<and> (\<forall>t \<in> set (map snd caps). goodNum t)"
proof (induction s)
  case Nil
  then show ?case
    using matchHere_caps [of p "[]"] by auto
next
  case (Cons c s)
  then show ?case
    using matchHere_caps [of p "c # s"] by (auto split: option.splits)
qed

lemma digitsVal_bounds:
  "list_all isDigit t \<Longrightarrow> 0 \<le> v \<Longrightarrow>
     0 \<le> foldl (\<lambda>v c. 10 * v + (int (of_char c) - 48)) v t
   \<and> foldl (\<lambda>v c. 10 * v + (int (of_char c) - 48)) v t < (v + 1) * 10 ^ length t"
proof (induction t arbitrary: v)
  case Nil
  then show ?case by simp
next
  case (Cons c t)
  have d: "0 \<le> int (of_char c) - 48" "int (of_char c) - 48 \<le> 9"
    using Cons.prems(1) by (auto simp: isDigit_def)
  define w where "w = 10 * v + (int (of_char c) - 48)"
  define r where "r = foldl (\<lambda>v c. 10 * v + (int (of_char c) - 48)) w t"
  have w0: "0 \<le> w" using d Cons.prems(2) by (simp add: w_def)
  have "list_all isDigit t" using Cons.prems(1) by simp
  from Cons.IH [OF this w0]
  have ih: "0 \<le> r" "r < (w + 1) * 10 ^ length t"
    by (auto simp: r_def)
  have "w + 1 \<le> 10 * (v + 1)"
    using d by (simp add: w_def)
  then have "(w + 1) * 10 ^ length t \<le> (10 * (v + 1)) * 10 ^ length t"
    by (intro mult_right_mono) auto
  also have "\<dots> = (v + 1) * 10 ^ length (c # t)"
    by simp
  finally have "r < (v + 1) * 10 ^ length (c # t)"
    using ih(2) by linarith
  moreover have "foldl (\<lambda>v c. 10 * v + (int (of_char c) - 48)) v (c # t) = r"
    by (simp add: r_def w_def)
  ultimately show ?case
    using ih(1) by simp
qed

lemma goodNum_Atoi: "goodNum t \<Longrightarrow> strconv_Atoi t = Some (digitsVal t)"
proof -
  assume g: "goodNum t"
  then have ne: "t \<noteq> []" and dg: "list_all isDigit t" and len: "length t \<le> 4"
    by (auto simp: goodNum_def)
  have "isDigit (hd t)" using ne dg by (cases t) auto
  then have nosign: "hd t \<noteq> CHR ''-''" "hd t \<noteq> CHR ''+''"
    by (auto simp: isDigit_def)
  have "0 \<le> digitsVal t" "digitsVal t < 1 * 10 ^ length t"
    using digitsVal_bounds [OF dg, of 0] by (auto simp: digitsVal_def)
  moreover have "(10::int) ^ length t \<le> 10 ^ 4"
    using len by (intro power_increasing) auto
  ultimately have "0 \<le> digitsVal t" "digitsVal t < 2 ^ 63"
    by auto
  then show ?thesis
    using ne dg nosign by (simp add: strconv_Atoi_def Let_def)
qed
lemma map_of_rev_distinct: "distinct (map fst xs) \<Longrightarrow> map_of (rev xs) = map_of xs"
proof (induction xs)
  case Nil
  then show ?case by simp
next
  case (Cons x xs)
  obtain k v where x: "x = (k, v)" by (cases x)
  have "map_of xs k = None"
    using Cons.prems x by (simp add: map_of_eq_None_iff)
  then have "[k \<mapsto> v] ++ map_of xs = (map_of xs)(k \<mapsto> v)"
    by (intro ext) (auto simp: map_add_def split: option.splits)
  then show ?case
    using Cons x by (simp add: map_of_append)
qed

lemma storeGroups_good:
  assumes "\<forall>g \<in> set groups. fst g \<noteq> [] \<and> goodNum (snd g)"
  shows "storeGroups date groups m
       = Inr (m ++ map_of (rev (map (\<lambda>(name, text). (name, digitsVal text)) groups)))"
  using assms
proof (induction groups arbitrary: m)
  case Nil
  then show ?case by simp
next
  case (Cons g groups)
  obtain name tx where g: "g = (name, tx)" by (cases g)
  have ne: "name \<noteq> []" and num: "strconv_Atoi tx = Some (digitsVal tx)"
    using Cons.prems g goodNum_Atoi by auto
  define M where "M = map_of (rev (map (\<lambda>(name, text). (name, digitsVal text)) groups))"
  have "storeGroups date (g # groups) m = storeGroups date groups (m(name \<mapsto> digitsVal tx))"
    using g ne num by simp
  also have "\<dots> = Inr (m(name \<mapsto> digitsVal tx) ++ M)"
    using Cons by (simp add: M_def)
  finally have step: "storeGroups date (g # groups) m = Inr (m(name \<mapsto> digitsVal tx) ++ M)" .
  have "map_of (rev (map (\<lambda>(name, text). (name, digitsVal text)) (g # groups)))
      = [name \<mapsto> digitsVal tx] ++ M"
    using g by (simp add: map_of_append M_def)
  moreover have "m ++ ([name \<mapsto> digitsVal tx] ++ M) = m(name \<mapsto> digitsVal tx) ++ M"
    by (simp add: map_add_assoc [symmetric])
  ultimately show ?case
    using step by simp
qed

lemma storeGroups_captured:
  assumes good: "goodPattern p" and found: "FindStringSubmatch p date = Some groups"
  shows "storeGroups date groups m = Inr (m ++ capturedFields p date)"
proof -
  have caps: "map fst groups = groupNames p" "\<forall>t \<in> set (map snd groups). goodNum t"
    using FindStringSubmatch_caps [OF _ found] good by (auto simp: goodPattern_def)
  have names: "\<forall>n \<in> set (groupNames p). n \<noteq> []"
    using good unfolding goodPattern_def groupNames_def list_all_iff
  proof (induction p)
    case Nil
    then show ?case by simp
  next
    case (Cons it its)
    then show ?case by (cases it) auto
  qed
  have g: "\<forall>g \<in> set groups. fst g \<noteq> [] \<and> goodNum (snd g)"
    using caps names by (metis (no_types, lifting) image_eqI list.set_map)
  have "map fst (map (\<lambda>(name, text). (name, digitsVal text)) groups) = groupNames p"
    using caps(1) by (simp add: case_prod_unfold comp_def)
  then have "distinct (map fst (map (\<lambda>(name, text). (name, digitsVal text)) groups))"
    using good by (simp add: goodPattern_def)
  then have "map_of (rev (map (\<lambda>(name, text). (name, digitsVal text)) groups))
           = map_of (map (\<lambda>(name, text). (name, digitsVal text)) groups)"
    by (rule map_of_rev_distinct)
  then show ?thesis
    using storeGroups_good [OF g, of date m] found by (simp add: capturedFields_def)
qed

lemma capturedFields_None: "FindStringSubmatch p date = None \<Longrightarrow> capturedFields p date = Map.empty"
  by (simp add: capturedFields_def)

lemma scanPatterns_good:
  assumes "\<forall>p \<in> set ps. goodPattern p"
  shows "scanPatterns date ps (m, found)
       = Inr (foldl (\<lambda>m p. m ++ capturedFields p date) m ps,
              found \<or> (\<exists>p \<in> set ps. FindStringSubmatch p date \<noteq> None))"
  using assms
proof (induction ps arbitrary: m found)
  case Nil
  then show ?case by simp
next
  case (Cons p ps)
  show ?case
  proof (cases "FindStringSubmatch p date")
    case None
    then show ?thesis
      using Cons by (simp add: capturedFields_None)
  next
    case (Some groups)
    have "storeGroups date groups m = Inr (m ++ capturedFields p date)"
      using Cons.prems Some by (intro storeGroups_captured) auto
    then show ?thesis
      using Cons Some by simp
  qed
qed

lemma regexPatterns_good: "\<forall>p \<in> set regexPatterns. goodPattern p"
  by (simp add: regexPatterns_def goodPattern_def groupNames_def)

lemma DateTimeFromString_eq:
  "DateTimeFromString date =
     (if \<forall>p \<in> set regexPatterns. FindStringSubmatch p date = None
      then Inl (NoDateFound date)
      else Inr (timeOfFields (capturedFields (regexPatterns ! 0) date
                              ++ capturedFields (regexPatterns ! 1) date
                              ++ capturedFields (regexPatterns ! 2) date)))"
proof -
  have "foldl (\<lambda>m p. m ++ capturedFields p date) Map.empty regexPatterns
      = capturedFields (regexPatterns ! 0) date ++ capturedFields (regexPatterns ! 1) date
        ++ capturedFields (regexPatterns ! 2) date"
    by (simp add: regexPatterns_def)
  then show ?thesis
    unfolding DateTimeFromString_def
    using scanPatterns_good [OF regexPatterns_good, of date Map.empty False]
    by auto
qed
lemma dom_capturedFields:
  assumes good: "goodPattern p" and found: "FindStringSubmatch p date = Some groups"
  shows "dom (capturedFields p date) = set (groupNames p)"
proof -
  have "map fst groups = groupNames p"
    using FindStringSubmatch_caps [OF _ found] good by (auto simp: goodPattern_def)
  then have "fst ` set (map (\<lambda>(name, text). (name, digitsVal text)) groups) = set (groupNames p)"
    by (metis (no_types, lifting) case_prod_unfold fst_conv list.set_map map_eq_conv map_map comp_apply)
  then show ?thesis
    using found by (simp add: capturedFields_def dom_map_of_conv_image_fst)
qed

lemma capturedFields_absent:
  assumes "goodPattern p" "name \<notin> set (groupNames p)"
  shows "capturedFields p date name = None"
proof (cases "FindStringSubmatch p date")
  case None
  then show ?thesis by (simp add: capturedFields_def)
next
  case (Some groups)
  from dom_capturedFields [OF assms(1) Some] assms(2) show ?thesis
    by (auto simp: dom_def)
qed



text \<open>The text of a group has a length between the bounds of its item.\<close>

lemma matchHere_lengths:
  "matchHere p s = Some (caps, rest) \<Longrightarrow>
     \<forall>g \<in> set caps. \<exists>lo hi. Digits (fst g) lo hi \<in> set p
        \<and> lo \<le> length (snd g) \<and> length (snd g) \<le> hi \<and> list_all isDigit (snd g)"
proof (induction p arbitrary: s caps rest)
  case Nil
  then show ?case by simp
next
  case (Cons it its)
  from Cons.prems obtain n where n: "n \<in> set (candidates it s)"
    and m: "(case matchHere its (drop n s) of
               None \<Rightarrow> None
             | Some (caps, rest) \<Rightarrow> Some (capture it (take n s) @ caps, rest)) = Some (caps, rest)"
    using firstSome_SomeD
      [of "\<lambda>n. case matchHere its (drop n s) of
                  None \<Rightarrow> None
                | Some (caps, rest) \<Rightarrow> Some (capture it (take n s) @ caps, rest)"
          "candidates it s" "(caps, rest)"]
    by auto
  from m obtain caps' where tl: "matchHere its (drop n s) = Some (caps', rest)"
    and caps: "caps = capture it (take n s) @ caps'"
    by (auto split: option.splits)
  have ih: "\<forall>g \<in> set caps'. \<exists>lo hi. Digits (fst g) lo hi \<in> set (it # its)
        \<and> lo \<le> length (snd g) \<and> length (snd g) \<le> hi \<and> list_all isDigit (snd g)"
    using Cons.IH [OF tl] by fastforce
  have hd: "\<forall>g \<in> set (capture it (take n s)). \<exists>lo hi. Digits (fst g) lo hi \<in> set (it # its)
        \<and> lo \<le> length (snd g) \<and> length (snd g) \<le> hi \<and> list_all isDigit (snd g)"
  proof (cases it)
    case (Digits name lo hi)
    have "lo \<le> n \<and> n \<le> hi \<and> n \<le> length s \<and> list_all isDigit (take n s)"
      using n unfolding Digits by (rule candidates_Digits)
    then show ?thesis
      unfolding Digits by (intro ballI exI [of _ lo] exI [of _ hi]) auto
  qed simp_all
  show ?case
    unfolding caps using hd ih by auto
qed

lemma FindStringSubmatch_lengths:
  "FindStringSubmatch p s = Some caps \<Longrightarrow>
     \<forall>g \<in> set caps. \<exists>lo hi. Digits (fst g) lo hi \<in> set p
        \<and> lo \<le> length (snd g) \<and> length (snd g) \<le> hi \<and> list_all isDigit (snd g)"
proof (induction s)
  case Nil
  then obtain rest where "matchHere p [] = Some (caps, rest)"
    by (cases "matchHere p []") auto
  then show ?case
    by (rule matchHere_lengths)
next
  case (Cons c s)
  show ?case
  proof (cases "matchHere p (c # s)")
    case None
    then show ?thesis
      using Cons by simp
  next
    case (Some m)
    then have "matchHere p (c # s) = Some (caps, snd m)"
      using Cons.prems by (cases m) auto
    then show ?thesis
      by (rule matchHere_lengths)
  qed
qed

text \<open>The fields of the hour:minute:second pattern are numbers of two digits.\<close>

lemma time_field_bounds:
  "0 \<le> field (capturedFields (regexPatterns ! 2) date) name
   \<and> field (capturedFields (regexPatterns ! 2) date) name \<le> 99"
proof (cases "capturedFields (regexPatterns ! 2) date name")
  case None
  then show ?thesis by (simp add: field_def)
next
  case (Some v)
  then obtain groups where found: "FindStringSubmatch (regexPatterns ! 2) date = Some groups"
    and mo: "map_of (map (\<lambda>(name, text). (name, digitsVal text)) groups) name = Some v"
    by (auto simp: capturedFields_def split: option.splits)
  from map_of_SomeD [OF mo] obtain t where g: "(name, t) \<in> set groups" and v: "v = digitsVal t"
    by auto
  from FindStringSubmatch_lengths [OF found] g obtain lo hi where
    "Digits name lo hi \<in> set (regexPatterns ! 2)" "lo \<le> length t" "length t \<le> hi"
    and dg: "list_all isDigit t"
    by fastforce
  then have len: "length t = 2"
    by (auto simp: regexPatterns_def)
  have "0 \<le> digitsVal t \<and> digitsVal t < (0 + 1) * 10 ^ length t"
    unfolding digitsVal_def using dg by (intro digitsVal_bounds) simp_all
  then show ?thesis
    using Some v len by (simp add: field_def)
qed

text \<open>
  Claim C5 states that a text with a time and no date gives a timestamp whose date is in
  year 0. \<open>time.Date\<close> normalises month 0 and day 0 of year 0 to the last day of the
  month before January of year 0: for \<open>at 10:20:30\<close> the timestamp is 30 November of
  year -1 at 10:20:30, which lies before the first instant of year 0.
\<close>

theorem C5_time_only_not_in_year_zero_counterexample:
  "FindStringSubmatch (regexPatterns ! 0) ''at 10:20:30'' = None
   \<and> FindStringSubmatch (regexPatterns ! 1) ''at 10:20:30'' = None
   \<and> FindStringSubmatch (regexPatterns ! 2) ''at 10:20:30''
       = Some [(''hour'', ''10''), (''min'', ''20''), (''sec'', ''30'')]
   \<and> DateTimeFromString ''at 10:20:30'' = Inr (time_Date (- 1) 11 30 10 20 30 0)
   \<and> time_Date (- 1) 11 30 10 20 30 0 < time_Date 0 1 1 0 0 0 0"
  by code_simp

text \<open>
  Claim C5, amended. \<open>DateTimeFromString\<close> fails exactly when none of the three patterns
  matches anywhere in the text, and then with \<open>NoDateFound\<close>. A text in which only the
  hour:minute:second pattern matches gives the UTC timestamp of 30 November of year -1
  at the matched time: the instant that lies 398 days before 1 January of year 1, plus
  the hours, minutes and seconds, each a number from 0 to 99. It lies in year -1.
\<close>

theorem C5_NoDateFound_iff_no_match:
  "((\<exists>e. DateTimeFromString date = Inl e)
      = (\<forall>p \<in> set regexPatterns. FindStringSubmatch p date = None))
   \<and> (\<forall>e. DateTimeFromString date = Inl e \<longrightarrow> e = NoDateFound date)
   \<and> (FindStringSubmatch (regexPatterns ! 0) date = None
        \<and> FindStringSubmatch (regexPatterns ! 1) date = None
        \<and> FindStringSubmatch (regexPatterns ! 2) date \<noteq> None
      \<longrightarrow> (let h = field (capturedFields (regexPatterns ! 2) date) ''hour'';
               m = field (capturedFields (regexPatterns ! 2) date) ''min'';
               s = field (capturedFields (regexPatterns ! 2) date) ''sec''
           in DateTimeFromString date = Inr (time_Date (- 1) 11 30 h m s 0)
              \<and> time_Date (- 1) 11 30 h m s 0
                  = (h * 3600 + m * 60 + s - 398 * 86400) * 1000000000
              \<and> 0 \<le> h \<and> h \<le> 99 \<and> 0 \<le> m \<and> m \<le> 99 \<and> 0 \<le> s \<and> s \<le> 99
              \<and> time_Date (- 1) 1 1 0 0 0 0 \<le> time_Date (- 1) 11 30 h m s 0
              \<and> time_Date (- 1) 11 30 h m s 0 < time_Date 0 1 1 0 0 0 0))"
proof (intro conjI impI)
  show "(\<exists>e. DateTimeFromString date = Inl e)
      = (\<forall>p \<in> set regexPatterns. FindStringSubmatch p date = None)"
    by (auto simp: DateTimeFromString_eq)
  show "\<forall>e. DateTimeFromString date = Inl e \<longrightarrow> e = NoDateFound date"
    by (auto simp: DateTimeFromString_eq split: if_splits)
next
  assume a: "FindStringSubmatch (regexPatterns ! 0) date = None
        \<and> FindStringSubmatch (regexPatterns ! 1) date = None
        \<and> FindStringSubmatch (regexPatterns ! 2) date \<noteq> None"
  define c where "c = capturedFields (regexPatterns ! 2) date"
  define h where "h = field c ''hour''"
  define m where "m = field c ''min''"
  define s where "s = field c ''sec''"
  have good: "goodPattern (regexPatterns ! 2)"
    using regexPatterns_good by (simp add: regexPatterns_def)
  have names: "groupNames (regexPatterns ! 2) = [''hour'', ''min'', ''sec'']"
    by (simp add: regexPatterns_def groupNames_def)
  have zero: "field c ''year'' = 0" "field c ''month'' = 0" "field c ''day'' = 0"
    using capturedFields_absent [OF good, of _ date] names
    by (simp_all add: field_def c_def)
  have merged: "capturedFields (regexPatterns ! 0) date ++ capturedFields (regexPatterns ! 1) date
                ++ capturedFields (regexPatterns ! 2) date = c"
    using a by (simp add: capturedFields_None c_def)
  have "\<not> (\<forall>p \<in> set regexPatterns. FindStringSubmatch p date = None)"
    using a by (auto simp: regexPatterns_def)
  then have "DateTimeFromString date = Inr (timeOfFields c)"
    using merged by (simp add: DateTimeFromString_eq)
  then have "DateTimeFromString date = Inr (time_Date 0 0 0 h m s 0)"
    using zero by (simp add: timeOfFields_def h_def m_def s_def)
  moreover have norm: "time_Date 0 0 0 h m s 0 = time_Date (- 1) 11 30 h m s 0"
    by (simp add: time_Date_def daysBeforeYear_def daysBefore_def isLeap_def)
  ultimately have res: "DateTimeFromString date = Inr (time_Date (- 1) 11 30 h m s 0)"
    by simp
  have num: "time_Date (- 1) 11 30 h m s 0 = (h * 3600 + m * 60 + s - 398 * 86400) * 1000000000"
    by (simp add: time_Date_def daysBeforeYear_def daysBefore_def isLeap_def)
  have b: "0 \<le> h \<and> h \<le> 99" "0 \<le> m \<and> m \<le> 99" "0 \<le> s \<and> s \<le> 99"
    unfolding h_def m_def s_def c_def by (rule time_field_bounds)+
  have lo: "time_Date (- 1) 1 1 0 0 0 0 \<le> time_Date (- 1) 11 30 h m s 0"
    unfolding num using b by (simp add: time_Date_def daysBeforeYear_def daysBefore_def isLeap_def)
  have hi: "time_Date (- 1) 11 30 h m s 0 < time_Date 0 1 1 0 0 0 0"
    unfolding num using b by (simp add: time_Date_def daysBeforeYear_def daysBefore_def isLeap_def)
  show "let h = field (capturedFields (regexPatterns ! 2) date) ''hour'';
            m = field (capturedFields (regexPatterns ! 2) date) ''min'';
            s = field (capturedFields (regexPatterns ! 2) date) ''sec''
        in DateTimeFromString date = Inr (time_Date (- 1) 11 30 h m s 0)
           \<and> time_Date (- 1) 11 30 h m s 0
               = (h * 3600 + m * 60 + s - 398 * 86400) * 1000000000
           \<and> 0 \<le> h \<and> h \<le> 99 \<and> 0 \<le> m \<and> m \<le> 99 \<and> 0 \<le> s \<and> s \<le> 99
           \<and> time_Date (- 1) 1 1 0 0 0 0 \<le> time_Date (- 1) 11 30 h m s 0
           \<and> time_Date (- 1) 11 30 h m s 0 < time_Date 0 1 1 0 0 0 0"
    unfolding Let_def c_def [symmetric] h_def [symmetric] m_def [symmetric] s_def [symmetric]
    using res num b lo hi by blast
qed

theorem C5_NoDateFound_iff_no_match_witness:
  "FindStringSubmatch (regexPatterns ! 0) ''draft'' = None
   \<and> FindStringSubmatch (regexPatterns ! 1) ''draft'' = None
   \<and> FindStringSubmatch (regexPatterns ! 2) ''draft'' = None
   \<and> DateTimeFromString ''draft'' = Inl (NoDateFound ''draft'')
   \<and> FindStringSubmatch (regexPatterns ! 0) ''at 10:20:30'' = None
   \<and> FindStringSubmatch (regexPatterns ! 1) ''at 10:20:30'' = None
   \<and> FindStringSubmatch (regexPatterns ! 2) ''at 10:20:30''
       = Some [(''hour'', ''10''), (''min'', ''20''), (''sec'', ''30'')]
   \<and> DateTimeFromString ''at 10:20:30'' = Inr (time_Date (- 1) 11 30 10 20 30 0)
   \<and> time_Date (- 1) 11 30 10 20 30 0 = - 34349970000000000"
proof -
  have n: "FindStringSubmatch (regexPatterns ! 0) ''draft'' = None"
    "FindStringSubmatch (regexPatterns ! 1) ''draft'' = None"
    "FindStringSubmatch (regexPatterns ! 2) ''draft'' = None"
    by code_simp+
  then have none: "\<forall>p \<in> set regexPatterns. FindStringSubmatch p ''draft'' = None"
    by (simp add: regexPatterns_def)
  have t: "FindStringSubmatch (regexPatterns ! 0) ''at 10:20:30'' = None"
    "FindStringSubmatch (regexPatterns ! 1) ''at 10:20:30'' = None"
    "FindStringSubmatch (regexPatterns ! 2) ''at 10:20:30''
       = Some [(''hour'', ''10''), (''min'', ''20''), (''sec'', ''30'')]"
    by code_simp+
  have f: "field (capturedFields (regexPatterns ! 2) ''at 10:20:30'') ''hour'' = 10"
    "field (capturedFields (regexPatterns ! 2) ''at 10:20:30'') ''min'' = 20"
    "field (capturedFields (regexPatterns ! 2) ''at 10:20:30'') ''sec'' = 30"
    by code_simp+
  note c5a = C5_NoDateFound_iff_no_match [of "''draft''"]
  note c5b = C5_NoDateFound_iff_no_match [of "''at 10:20:30''", THEN conjunct2, THEN conjunct2, THEN mp]
  have 1: "DateTimeFromString ''draft'' = Inl (NoDateFound ''draft'')"
    using c5a none by blast
  have "DateTimeFromString ''at 10:20:30'' = Inr (time_Date (- 1) 11 30 10 20 30 0)
      \<and> time_Date (- 1) 11 30 10 20 30 0 = (10 * 3600 + 20 * 60 + 30 - 398 * 86400) * 1000000000"
    using c5b t unfolding Let_def f by simp
  then have 2: "DateTimeFromString ''at 10:20:30'' = Inr (time_Date (- 1) 11 30 10 20 30 0)"
    "time_Date (- 1) 11 30 10 20 30 0 = - 34349970000000000"
    by simp_all
  show ?thesis
    using n t 1 2 by simp
qed




section \<open>Properties of Clean and Join\<close>

lemma strings_Split_no_sep: "p \<in> set (strings_Split s sep) \<Longrightarrow> sep \<notin> set p"
proof (induction s arbitrary: p)
  case Nil
  then show ?case by simp
next
  case (Cons c s)
  obtain q qs where sp: "strings_Split s sep = q # qs"
    using strings_Split_not_Nil [of s sep] by (cases "strings_Split s sep") auto
  show ?case
  proof (cases "c = sep")
    case True
    then show ?thesis using Cons by auto
  next
    case False
    then have "p = c # q \<or> p \<in> set qs"
      using Cons.prems sp by simp
    then show ?thesis
      using Cons.IH [of q] Cons.IH [of p] sp False by auto
  qed
qed

lemma strings_Split_append:
  "sep \<notin> set p \<Longrightarrow> strings_Split (p @ sep # s) sep = p # strings_Split s sep"
  by (induction p) auto

lemma strings_Split_plain: "sep \<notin> set p \<Longrightarrow> strings_Split p sep = [p]"
  by (induction p) auto

lemma strings_Split_Join:
  "ps \<noteq> [] \<Longrightarrow> \<forall>p \<in> set ps. sep \<notin> set p \<Longrightarrow> strings_Split (strings_Join ps [sep]) sep = ps"
proof (induction ps "[sep]" rule: strings_Join.induct)
  case 1
  then show ?case by simp
next
  case (2 p)
  then show ?case by (simp add: strings_Split_plain)
next
  case (3 p q ps)
  then show ?case by (simp add: strings_Split_append)
qed

lemma keptShape_Nil: "keptShape rooted []"
  by (simp add: keptShape_def)

lemma keptShape_push:
  assumes "keptShape rooted kept" "plainElem e" "e \<noteq> ''..''"
  shows "keptShape rooted (e # kept)"
proof -
  from assms(1) obtain ns n where k: "kept = ns @ replicate n ''..''" "''..'' \<notin> set ns"
    by (auto simp: keptShape_def)
  have "e # kept = (e # ns) @ replicate n ''..''" "''..'' \<notin> set (e # ns)"
    using k assms(3) by auto
  then have "\<exists>ns n. e # kept = ns @ replicate n ''..'' \<and> ''..'' \<notin> set ns"
    by blast
  then show ?thesis
    using assms by (auto simp: keptShape_def)
qed

lemma keptShape_pop:
  assumes "keptShape rooted (k # ks)" "k \<noteq> ''..''"
  shows "keptShape rooted ks"
proof -
  from assms(1) obtain ns n where k: "k # ks = ns @ replicate n ''..''" "''..'' \<notin> set ns"
    by (auto simp: keptShape_def)
  have "ns \<noteq> []"
    using k assms(2) by (cases ns; cases n) auto
  then obtain ms where "ns = k # ms"
    using k by (cases ns) auto
  then have "ks = ms @ replicate n ''..''" "''..'' \<notin> set ms"
    using k by auto
  then have "\<exists>ns n. ks = ns @ replicate n ''..'' \<and> ''..'' \<notin> set ns"
    by blast
  then show ?thesis
    using assms by (auto simp: keptShape_def)
qed

lemma keptShape_dotdot:
  assumes "keptShape False kept" "kept = [] \<or> hd kept = ''..''"
  shows "keptShape False (''..'' # kept)"
proof -
  from assms(1) obtain ns n where k: "kept = ns @ replicate n ''..''" "''..'' \<notin> set ns"
    by (auto simp: keptShape_def)
  have "ns = []"
    using k assms(2) by (cases ns) auto
  then have "''..'' # kept = [] @ replicate (Suc n) ''..''"
    using k by simp
  then have "\<exists>ns n. ''..'' # kept = ns @ replicate n ''..'' \<and> ''..'' \<notin> set ns"
    by (metis empty_iff list.set(1))
  moreover have "plainElem ''..''"
    by (simp add: plainElem_def)
  ultimately show ?thesis
    using assms(1) by (auto simp: keptShape_def)
qed

lemma cleanElems_shape:
  "\<forall>e \<in> set es. CHR ''/'' \<notin> set e \<Longrightarrow> keptShape rooted kept \<Longrightarrow>
     keptShape rooted (cleanElems rooted es kept)"
proof (induction es arbitrary: kept)
  case Nil
  then show ?case by simp
next
  case (Cons e es)
  have es: "\<forall>e \<in> set es. CHR ''/'' \<notin> set e" and e: "CHR ''/'' \<notin> set e"
    using Cons.prems(1) by auto
  show ?case
  proof (cases "e = [] \<or> e = ''.''")
    case True
    then show ?thesis
      using Cons.IH [OF es Cons.prems(2)] by auto
  next
    case False
    note notskip = this
    show ?thesis
    proof (cases "e = ''..''")
      case False
      have "plainElem e"
        using notskip e by (simp add: plainElem_def)
      then have "keptShape rooted (e # kept)"
        using Cons.prems(2) False by (intro keptShape_push)
      from Cons.IH [OF es this] show ?thesis
        using notskip False by simp
    next
      case True
      show ?thesis
      proof (cases kept)
        case Nil
        show ?thesis
        proof (cases rooted)
          case True
          then show ?thesis
            using \<open>e = ''..''\<close> Nil Cons.IH [OF es keptShape_Nil] by simp
        next
          case False
          have "keptShape False [''..'']"
            using keptShape_dotdot [OF keptShape_Nil] by simp
          from Cons.IH [OF es, of "[''..'']"] this show ?thesis
            using \<open>e = ''..''\<close> Nil False by simp
        qed
      next
        case (Cons k ks)
        show ?thesis
        proof (cases "k = ''..''")
          case True
          then have nr: "\<not> rooted"
            using Cons.prems(2) Cons by (auto simp: keptShape_def)
          then have "keptShape rooted (''..'' # kept)"
            using keptShape_dotdot [of kept] Cons.prems(2) Cons True by simp
          from Cons.IH [OF es this] show ?thesis
            using \<open>e = ''..''\<close> Cons True by simp
        next
          case False
          have "keptShape rooted ks"
            using keptShape_pop Cons.prems(2) Cons False by blast
          from Cons.IH [OF es this] show ?thesis
            using \<open>e = ''..''\<close> Cons False by simp
        qed
      qed
    qed
  qed
qed

lemma cleanElems_plain:
  "list_all plainElem ns \<Longrightarrow> ''..'' \<notin> set ns \<Longrightarrow> cleanElems rooted ns kept = rev ns @ kept"
  by (induction ns arbitrary: kept) (auto simp: plainElem_def)

lemma cleanElems_dotdots:
  "cleanElems False (replicate n ''..'' @ ns) (replicate m ''..'')
     = cleanElems False ns (replicate (n + m) ''..'')"
proof (induction n arbitrary: m)
  case 0
  then show ?case by simp
next
  case (Suc n)
  have "cleanElems False (replicate (Suc n) ''..'' @ ns) (replicate m ''..'')
      = cleanElems False (replicate n ''..'' @ ns) (replicate (Suc m) ''..'')"
    by (cases m) simp_all
  then show ?case
    using Suc.IH [of "Suc m"] by simp
qed

lemma cleanElems_kept:
  assumes "keptShape rooted kept"
  shows "cleanElems rooted (rev kept) [] = kept"
proof -
  from assms have pl: "list_all plainElem kept" and r: "rooted \<longrightarrow> ''..'' \<notin> set kept"
    and "\<exists>ns n. kept = ns @ replicate n ''..'' \<and> ''..'' \<notin> set ns"
    unfolding keptShape_def by blast+
  then obtain ns n where k: "kept = ns @ replicate n ''..''" "''..'' \<notin> set ns"
    by blast
  have rk: "rev kept = replicate n ''..'' @ rev ns"
    using k by simp
  have pns: "list_all plainElem (rev ns)" "''..'' \<notin> set (rev ns)"
    using pl k by simp_all
  show ?thesis
  proof (cases rooted)
    case True
    then have "n = 0"
      using r k by (cases n) auto
    then show ?thesis
      using cleanElems_plain [OF pns, of rooted "[]"] rk k by simp
  next
    case False
    have "cleanElems False (rev kept) [] = cleanElems False (rev ns) (replicate n ''..'')"
      using cleanElems_dotdots [of n "rev ns" 0] rk by simp
    also have "\<dots> = rev (rev ns) @ replicate n ''..''"
      using pns by (rule cleanElems_plain)
    finally show ?thesis
      using k False by simp
  qed
qed

lemma hd_strings_Join:
  "ps \<noteq> [] \<Longrightarrow> hd ps \<noteq> [] \<Longrightarrow> strings_Join ps sep \<noteq> [] \<and> hd (strings_Join ps sep) = hd (hd ps)"
  by (induction ps sep rule: strings_Join.induct) auto

lemma filepath_Clean_idem: "filepath_Clean (filepath_Clean path) = filepath_Clean path"
proof (cases "path = []")
  case True
  then show ?thesis
    by (simp add: filepath_Clean_def)
next
  case False
  define rooted where "rooted = (hd path = CHR ''/'')"
  define kept where "kept = cleanElems rooted (strings_Split path (CHR ''/'')) []"
  define K where "K = rev kept"
  have shape: "keptShape rooted kept"
    unfolding kept_def
    by (rule cleanElems_shape) (auto simp: strings_Split_no_sep keptShape_Nil)
  have again: "cleanElems rooted K [] = kept"
    unfolding K_def using shape by (rule cleanElems_kept)
  have plain: "list_all plainElem K"
    using shape by (simp add: keptShape_def K_def)
  then have nosep: "\<forall>p \<in> set K. CHR ''/'' \<notin> set p"
    by (auto simp: list_all_iff plainElem_def)
  have clean: "filepath_Clean path
      = (if (if rooted then ''/'' else []) @ strings_Join K ''/'' = [] then ''.''
         else (if rooted then ''/'' else []) @ strings_Join K ''/'')"
    using False by (simp add: filepath_Clean_def Let_def rooted_def kept_def K_def)
  have dot: "filepath_Clean ''.'' = ''.''"
    by (simp add: filepath_Clean_def)
  show ?thesis
  proof (cases rooted)
    case True
    then have c: "filepath_Clean path = CHR ''/'' # strings_Join K ''/''"
      using clean by simp
    have sp: "cleanElems True (strings_Split (strings_Join K ''/'') (CHR ''/'')) [] = kept"
    proof (cases "K = []")
      case True
      then show ?thesis
        using again \<open>rooted\<close> by simp
    next
      case False
      then show ?thesis
        using again \<open>rooted\<close> strings_Split_Join [OF False nosep] by simp
    qed
    show ?thesis
      unfolding c by (simp add: filepath_Clean_def Let_def sp) (simp add: K_def)
  next
    case nr: False
    show ?thesis
    proof (cases "K = []")
      case True
      then show ?thesis
        using clean nr dot by simp
    next
      case False
      have "hd K \<noteq> []" "CHR ''/'' \<notin> set (hd K)"
        using plain False by (cases K; auto simp: plainElem_def)+
      then have j: "strings_Join K ''/'' \<noteq> []" "hd (strings_Join K ''/'') \<noteq> CHR ''/''"
        using hd_strings_Join [OF False, of "''/''"] by (cases "hd K"; auto)+
      have c: "filepath_Clean path = strings_Join K ''/''"
        using clean nr j by simp
      have sp: "cleanElems False (strings_Split (strings_Join K ''/'') (CHR ''/'')) [] = kept"
        using again nr strings_Split_Join [OF False nosep] by simp
      show ?thesis
        unfolding c using j by (simp add: filepath_Clean_def Let_def sp) (simp add: K_def)
    qed
  qed
qed

lemma filepath_Clean_Join:
  "filepath_Join elem \<noteq> [] \<Longrightarrow> filepath_Clean (filepath_Join elem) = filepath_Join elem"
  by (cases "dropWhile (\<lambda>e. e = []) elem") (simp_all add: filepath_Join_def filepath_Clean_idem)


section \<open>Properties of the file system\<close>

declare os_MkdirAll.simps [simp del]

lemma map_of_fs_update: "map_of (fs_update p n fs) p = Some n"
  by (induction fs) auto

lemma map_of_fs_update_other: "q \<noteq> p \<Longrightarrow> map_of (fs_update p n fs) q = map_of fs q"
  by (induction fs) auto

lemma filepath_Clean_not_Nil: "filepath_Clean path \<noteq> []"
  by (simp add: filepath_Clean_def Let_def)

lemma filepath_Join_not_Nil: "y \<noteq> [] \<Longrightarrow> filepath_Join [x, y] \<noteq> []"
  by (cases "x = []") (simp_all add: filepath_Join_def filepath_Clean_not_Nil)

text \<open>Reading succeeds exactly when the table holds a file under the cleaned path.\<close>

lemma os_ReadFile_Inr:
  "(os_ReadFile fs path = Inr content)
     = (path \<noteq> [] \<and> filepath_Clean path \<noteq> ''.'' \<and> filepath_Clean path \<noteq> ''/''
        \<and> map_of fs (filepath_Clean path) = Some (File content))"
  by (auto simp: os_ReadFile_def os_Stat_def Let_def split: option.splits node.splits sum.splits)

lemma os_Stat_Inl:
  "os_Stat fs path = Inl e \<Longrightarrow>
     path = [] \<or> (filepath_Clean path \<noteq> ''.'' \<and> filepath_Clean path \<noteq> ''/''
                  \<and> map_of fs (filepath_Clean path) = None)"
  by (auto simp: os_Stat_def Let_def split: option.splits if_splits)

lemma os_Stat_Dir_not_Nil: "os_Stat fs path = Inr n \<Longrightarrow> path \<noteq> []"
  by (auto simp: os_Stat_def)

lemma os_WriteFile_Inr:
  assumes "os_WriteFile fs path content = Inr fs'"
  shows "fs' = fs_update (filepath_Clean path) (File content) fs \<and> path \<noteq> []
       \<and> filepath_Clean path \<noteq> ''.'' \<and> filepath_Clean path \<noteq> ''/''"
proof -
  from assms have ne: "path \<noteq> []"
    and fs': "fs' = fs_update (filepath_Clean path) (File content) fs"
    and notdir: "os_Stat fs path \<noteq> Inr Dir"
    by (auto simp: os_WriteFile_def split: sum.splits node.splits if_splits)
  have "filepath_Clean path \<noteq> ''.'' \<and> filepath_Clean path \<noteq> ''/''"
    using notdir ne by (auto simp: os_Stat_def Let_def)
  then show ?thesis
    using ne fs' by simp
qed

lemma os_WriteFile_then_ReadFile:
  assumes "os_WriteFile fs path content = Inr fs'"
  shows "os_ReadFile fs' path = Inr content"
  using os_WriteFile_Inr [OF assms] by (simp add: os_ReadFile_Inr map_of_fs_update)

lemma os_WriteFile_other:
  assumes "os_WriteFile fs path content = Inr fs'"
    and "filepath_Clean q \<noteq> filepath_Clean path"
  shows "(os_ReadFile fs' q = Inr x) = (os_ReadFile fs q = Inr x)"
  using os_WriteFile_Inr [OF assms(1)] assms(2)
  by (simp add: os_ReadFile_Inr map_of_fs_update_other)

lemma os_ReadFile_same_path:
  assumes "filepath_Clean q = filepath_Clean path" "q \<noteq> []" "path \<noteq> []"
  shows "(os_ReadFile fs q = Inr x) = (os_ReadFile fs path = Inr x)"
  using assms by (simp add: os_ReadFile_Inr)

lemma os_ReadFile_Stat: "os_ReadFile fs path = Inr content \<Longrightarrow> os_Stat fs path = Inr (File content)"
  by (auto simp: os_ReadFile_def split: sum.splits node.splits)

text \<open>Making directories leaves every file as it is.\<close>

lemma os_Mkdir_files:
  assumes "os_Mkdir fs path = Inr fs'"
  shows "(os_ReadFile fs' q = Inr x) = (os_ReadFile fs q = Inr x)"
proof -
  from assms obtain e where st: "os_Stat fs path = Inl e" and ne: "path \<noteq> []"
    and fs': "fs' = fs_update (filepath_Clean path) Dir fs"
    by (auto simp: os_Mkdir_def split: sum.splits node.splits if_splits)
  from os_Stat_Inl [OF st] ne have none: "map_of fs (filepath_Clean path) = None"
    by simp
  show ?thesis
  proof (cases "filepath_Clean q = filepath_Clean path")
    case True
    then show ?thesis
      using none by (simp add: os_ReadFile_Inr fs' map_of_fs_update)
  next
    case False
    then show ?thesis
      by (simp add: os_ReadFile_Inr fs' map_of_fs_update_other)
  qed
qed

lemma os_MkdirAll_files:
  "os_MkdirAll fs path = Inr fs' \<Longrightarrow> (os_ReadFile fs' q = Inr x) = (os_ReadFile fs q = Inr x)"
proof (induction fs path arbitrary: fs' rule: os_MkdirAll.induct)
  case (1 fs path)
  show ?case
  proof (cases "os_Stat fs path")
    case (Inr n)
    then show ?thesis
      using "1.prems" by (cases n) (auto simp: os_MkdirAll.simps [of fs path])
  next
    case (Inl e)
    show ?thesis
    proof (cases "parentPrefix path \<noteq> []")
      case False
      then have "os_Mkdir fs path = Inr fs'"
        using "1.prems" Inl by (simp add: os_MkdirAll.simps [of fs path])
      then show ?thesis
        by (rule os_Mkdir_files)
    next
      case True
      then obtain fs1 where p: "os_MkdirAll fs (parentPrefix path) = Inr fs1"
        and m: "os_Mkdir fs1 path = Inr fs'"
        using "1.prems" Inl by (auto simp: os_MkdirAll.simps [of fs path] split: sum.splits)
      have "(os_ReadFile fs1 q = Inr x) = (os_ReadFile fs q = Inr x)"
        using "1.IH" [OF Inl True p] .
      then show ?thesis
        using os_Mkdir_files [OF m, of q x] by simp
    qed
  qed
qed


section \<open>Properties of the resource copy\<close>

lemma copyResource_skip:
  "resourceCleanPath authorityOk resource = None \<Longrightarrow>
     copyResource authorityOk settings article originalDirectory outputDirectory resource fs = (fs, None)"
  by (simp add: copyResource_def)

lemma skip_external:
  "isAbsoluteExternalURL (strings_ToLower (strings_TrimSpace r)) \<Longrightarrow> resourceCleanPath ok r = None"
  by (simp add: resourceCleanPath_def Let_def)

lemma skip_nonresource:
  "isNonResourceLink (strings_ToLower (strings_TrimSpace r)) \<Longrightarrow> resourceCleanPath ok r = None"
  by (simp add: resourceCleanPath_def Let_def)

lemma skip_by_extension:
  assumes "cleanPathOf ok (strings_TrimSpace r) = Some cleanPath"
    and "isContentFileExt (strings_ToLower (filepath_Ext cleanPath)) \<or> filepath_Ext cleanPath = []"
  shows "resourceCleanPath ok r = None"
proof -
  have "strings_ToLower [] = []" by simp
  then show ?thesis
    using assms by (auto simp: resourceCleanPath_def Let_def)
qed

lemma copied_has_extension:
  assumes "resourceCleanPath ok r = Some cleanPath"
  shows "cleanPathOf ok (strings_TrimSpace r) = Some cleanPath
       \<and> \<not> isContentFileExt (strings_ToLower (filepath_Ext cleanPath))
       \<and> filepath_Ext cleanPath \<noteq> []"
proof -
  have "strings_ToLower [] = []" by simp
  then show ?thesis
    using assms by (auto simp: resourceCleanPath_def Let_def split: if_splits option.splits)
qed
lemma strings_Cut_fst: "fst (strings_Cut s c) = takeWhile (\<lambda>x. x \<noteq> c) s"
  by (induction s) (auto simp: strings_Cut_def)

lemma strings_Cut_frag_subset: "set (fst (snd (strings_Cut s c))) \<subseteq> set s"
proof (cases "dropWhile (\<lambda>x. x \<noteq> c) s")
  case Nil
  then show ?thesis by (auto simp: strings_Cut_def)
next
  case (Cons a as)
  have "set (dropWhile (\<lambda>x. x \<noteq> c) s) \<subseteq> set s"
    using set_dropWhileD by fastforce
  then show ?thesis
    using Cons by (auto simp: strings_Cut_def)
qed

lemma unescape_plain: "CHR ''%'' \<notin> set s \<Longrightarrow> unescape s = Inr s"
  by (induction s) auto

lemma getSchemeFrom_no_colon:
  "CHR '':'' \<notin> set s \<Longrightarrow> getSchemeFrom raw seen s = Inr ([], raw)"
  by (induction s arbitrary: seen) auto

lemma takeWhile_takeWhile_conj:
  "takeWhile P (takeWhile Q xs) = takeWhile (\<lambda>x. P x \<and> Q x) xs"
  by (induction xs) auto

lemma butlast_single_sep:
  assumes "strings_HasSuffix u [c]" "count_list u c = 1"
  shows "butlast u = takeWhile (\<lambda>x. x \<noteq> c) u"
proof -
  define v where "v = take (length u - 1) u"
  from assms(1) have "drop (length u - 1) u = [c]"
    by (simp add: strings_HasSuffix_def)
  then have u: "u = v @ [c]"
    unfolding v_def by (metis append_take_drop_id)
  have "count_list (v @ [c]) c = 1"
    using assms(2) u by simp
  then have "count_list v c = 0"
    by simp
  then have "takeWhile (\<lambda>x. x \<noteq> c) (v @ [c]) = v"
    by (induction v) (auto split: if_splits)
  then show ?thesis
    by (simp add: u)
qed

lemma HasPrefix_takeWhile:
  assumes "strings_HasPrefix (takeWhile P s) x"
  shows "strings_HasPrefix s x"
proof -
  have "take (length x) (takeWhile P s) = x"
    using assms by (simp add: strings_HasPrefix_def)
  then have "length (take (length x) (takeWhile P s)) = length x"
    by (rule arg_cong)
  then have len: "length x \<le> length (takeWhile P s)"
    by simp
  have "take (length x) s = take (length x) (takeWhile P s @ dropWhile P s)"
    by simp
  also have "\<dots> = take (length x) (takeWhile P s)"
    using len by (simp del: takeWhile_dropWhile_id)
  finally show ?thesis
    using assms by (simp add: strings_HasPrefix_def)
qed

lemma url_parse_plain:
  assumes nc: "\<forall>c \<in> set u. \<not> ((of_char c :: nat) < 32 \<or> (of_char c :: nat) = 127)
                 \<and> c \<noteq> CHR '':'' \<and> c \<noteq> CHR ''%''"
    and ns: "\<not> strings_HasPrefix u ''//''"
  shows "url_parse ok u = Inr (takeWhile (\<lambda>c. c \<noteq> CHR ''?'') u)"
proof (cases "u = ''*''")
  case True
  then show ?thesis by (simp add: url_parse_def stringContainsCTLByte_def)
next
  case False
  define rest1 where "rest1 = takeWhile (\<lambda>c. c \<noteq> CHR ''?'') u"
  have ctl: "\<not> stringContainsCTLByte u"
    using nc by (auto simp: stringContainsCTLByte_def list_ex_iff)
  have "CHR '':'' \<notin> set u"
    using nc by blast
  then have sch: "getScheme u = Inr ([], u)"
    by (simp add: getScheme_def getSchemeFrom_no_colon)
  have r1: "(if strings_HasSuffix u ''?'' \<and> count_list u (CHR ''?'') = 1
             then butlast u else fst (strings_Cut u (CHR ''?''))) = rest1"
    using butlast_single_sep [of u "CHR ''?''"] by (simp add: rest1_def strings_Cut_fst)
  have sub: "set rest1 \<subseteq> set u"
    unfolding rest1_def using set_takeWhileD by fastforce
  have colon: "CHR '':'' \<notin> set (fst (strings_Cut rest1 (CHR ''/'')))"
  proof -
    have "set (fst (strings_Cut rest1 (CHR ''/''))) \<subseteq> set rest1"
      unfolding strings_Cut_fst using set_takeWhileD by fastforce
    then show ?thesis using sub nc by blast
  qed
  have auth: "\<not> strings_HasPrefix rest1 ''//''"
    using ns HasPrefix_takeWhile unfolding rest1_def by blast
  have un: "unescape rest1 = Inr rest1"
    using sub nc by (intro unescape_plain) blast
  show ?thesis
    unfolding rest1_def [symmetric]
    using False ctl sch r1 colon auth un
    by (simp add: url_parse_def Let_def)
qed

lemma cleanPathOf_strips:
  assumes nc: "\<forall>c \<in> set ref. \<not> ((of_char c :: nat) < 32 \<or> (of_char c :: nat) = 127)
                 \<and> c \<noteq> CHR '':'' \<and> c \<noteq> CHR ''%''"
    and ns: "\<not> strings_HasPrefix ref ''//''"
    and p: "p = strings_TrimPrefix (takeWhile (\<lambda>c. c \<noteq> CHR ''?'' \<and> c \<noteq> CHR ''#'') ref) ''/''"
    and ne: "p \<noteq> []"
  shows "cleanPathOf ok ref = Some p"
proof -
  define u where "u = takeWhile (\<lambda>c. c \<noteq> CHR ''#'') ref"
  define frag where "frag = fst (snd (strings_Cut ref (CHR ''#'')))"
  define pre where "pre = takeWhile (\<lambda>c. c \<noteq> CHR ''?'' \<and> c \<noteq> CHR ''#'') ref"
  define found where "found = snd (snd (strings_Cut ref (CHR ''#'')))"
  have cut: "strings_Cut ref (CHR ''#'') = (u, frag, found)"
    using strings_Cut_fst [of ref "CHR ''#''"] by (simp add: u_def frag_def found_def prod_eq_iff)
  have usub: "set u \<subseteq> set ref"
    unfolding u_def using set_takeWhileD by fastforce
  have "url_parse ok u = Inr (takeWhile (\<lambda>c. c \<noteq> CHR ''?'') u)"
  proof (rule url_parse_plain)
    show "\<forall>c \<in> set u. \<not> ((of_char c :: nat) < 32 \<or> (of_char c :: nat) = 127)
                 \<and> c \<noteq> CHR '':'' \<and> c \<noteq> CHR ''%''"
      using usub nc by blast
    show "\<not> strings_HasPrefix u ''//''"
      using ns HasPrefix_takeWhile unfolding u_def by blast
  qed
  then have parsed: "url_parse ok u = Inr pre"
    by (simp add: u_def pre_def takeWhile_takeWhile_conj)
  have "CHR ''%'' \<notin> set frag"
    using strings_Cut_frag_subset [of ref "CHR ''#''"] nc unfolding frag_def by blast
  then have "unescape frag = Inr frag"
    by (rule unescape_plain)
  then have "url_Parse ok ref = Inr pre"
    using cut parsed by (simp add: url_Parse_def)
  moreover have "pre \<noteq> []"
    using p ne by (auto simp: pre_def strings_TrimPrefix_def split: if_splits)
  ultimately show ?thesis
    using p ne by (cases pre) (simp_all add: cleanPathOf_def pre_def Let_def)
qed
lemma ToLower_keeps_slashes:
  assumes "strings_HasPrefix t ''//''"
  shows "strings_HasPrefix (strings_ToLower t) ''//''"
proof -
  from assms obtain rest where t: "t = CHR ''/'' # CHR ''/'' # rest"
    by (cases t; cases "tl t") (auto simp: strings_HasPrefix_def)
  have low: "asciiLower (CHR ''/'') = CHR ''/''"
    by (simp add: asciiLower_def isUpper_def)
  show ?thesis
  proof (cases rest)
    case Nil
    then show ?thesis using t low by (simp add: strings_HasPrefix_def)
  next
    case (Cons c s)
    then show ?thesis
      using t low by (cases s) (auto simp: strings_HasPrefix_def)
  qed
qed

subsection \<open>One copy, and what it leaves alone\<close>

text \<open>
  A copy makes the directory of the destination and writes there what it has read.
  A file that is not the destination keeps its content; the destination holds what
  was read.
\<close>

lemma copy_keeps:
  assumes mk: "os_MkdirAll fs (filepath_Dir d) = Inr fsm"
    and wr: "os_WriteFile fsm d c = Inr fs'"
    and other: "filepath_Clean q \<noteq> filepath_Clean d"
  shows "(os_ReadFile fs' q = Inr x) = (os_ReadFile fs q = Inr x)"
  using os_WriteFile_other [OF wr other, of x] os_MkdirAll_files [OF mk, of q x] by simp

lemma copy_step:
  assumes rd: "os_ReadFile fs s = Inr c"
    and mk: "os_MkdirAll fs (filepath_Dir d) = Inr fsm"
    and wr: "os_WriteFile fsm d c = Inr fs'"
    and src: "os_ReadFile fs srcP = Inr content"
    and sep1: "filepath_Clean d \<noteq> filepath_Clean srcP"
    and sep2: "filepath_Clean d = filepath_Clean destP \<longrightarrow> filepath_Clean s = filepath_Clean srcP"
    and ne: "destP \<noteq> []"
  shows "os_ReadFile fs' srcP = Inr content"
    and "os_ReadFile fs destP = Inr content \<or> filepath_Clean d = filepath_Clean destP
           \<Longrightarrow> os_ReadFile fs' destP = Inr content"
proof -
  show "os_ReadFile fs' srcP = Inr content"
    using copy_keeps [OF mk wr, of srcP content] sep1 src by simp
  assume a: "os_ReadFile fs destP = Inr content \<or> filepath_Clean d = filepath_Clean destP"
  show "os_ReadFile fs' destP = Inr content"
  proof (cases "filepath_Clean d = filepath_Clean destP")
    case False
    then show ?thesis
      using copy_keeps [OF mk wr, of destP content] a by simp
  next
    case True
    then have "filepath_Clean s = filepath_Clean srcP"
      using sep2 by simp
    then have "c = content"
      using rd src by (simp add: os_ReadFile_Inr)
    moreover have "d \<noteq> []"
      using os_WriteFile_Inr [OF wr] by simp
    ultimately show ?thesis
      using os_WriteFile_then_ReadFile [OF wr] os_ReadFile_same_path [OF True [symmetric] ne, of fs' content]
      by simp
  qed
qed

subsection \<open>The loop over the references\<close>

lemma copyResource_cases:
  assumes "copyResource ok st art od outd r fs = (fs', None)"
  shows "fs' = fs
       \<or> (\<exists>p c fsm. resourceCleanPath ok r = Some p
             \<and> os_ReadFile fs (filepath_Join [od, p]) = Inr c
             \<and> os_MkdirAll fs (filepath_Dir (filepath_Join [outd, p])) = Inr fsm
             \<and> os_WriteFile fsm (filepath_Join [outd, p]) c = Inr fs')"
proof (cases "resourceCleanPath ok r")
  case None
  then show ?thesis
    using assms by (simp add: copyResource_def)
next
  case (Some p)
  show ?thesis
  proof (cases "os_Stat fs (filepath_Join [od, p])")
    case (Inl e)
    then show ?thesis
      using assms Some
      by (cases e) (auto simp: copyResource_def Let_def split: if_splits)
  next
    case (Inr n)
    show ?thesis
    proof (cases n)
      case Dir
      then show ?thesis
        using assms Some Inr by (simp add: copyResource_def Let_def)
    next
      case (File c0)
      then show ?thesis
        using assms Some Inr
        by (auto simp: copyResource_def Let_def filepath_FromSlash_def
            split: sum.splits if_splits)
    qed
  qed
qed

lemma copyResource_copied:
  assumes res: "copyResource ok st art od outd r fs = (fs', None)"
    and p: "resourceCleanPath ok r = Some p"
    and rd: "os_ReadFile fs (filepath_Join [od, p]) = Inr c"
  shows "\<exists>fsm. os_MkdirAll fs (filepath_Dir (filepath_Join [outd, p])) = Inr fsm
             \<and> os_WriteFile fsm (filepath_Join [outd, p]) c = Inr fs'"
  using res p rd os_ReadFile_Stat [OF rd]
  by (auto simp: copyResource_def Let_def filepath_FromSlash_def split: sum.splits if_splits)

lemma resourceCleanPath_not_Nil: "resourceCleanPath ok r = Some p \<Longrightarrow> p \<noteq> []"
  by (auto simp: resourceCleanPath_def cleanPathOf_def Let_def
      split: if_splits option.splits sum.splits list.splits)

lemma copyResources_invariant:
  assumes "copyResources ok st art od outd rs fs = (fs', None)"
    and "os_ReadFile fs srcP = Inr content"
    and "\<forall>r \<in> set rs. \<forall>p. resourceCleanPath ok r = Some p \<longrightarrow>
           filepath_Join [outd, p] \<noteq> srcP
           \<and> (filepath_Join [outd, p] = destP \<longrightarrow> filepath_Join [od, p] = srcP)"
    and "filepath_Clean srcP = srcP" "filepath_Clean destP = destP" "destP \<noteq> []"
  shows "os_ReadFile fs' srcP = Inr content
       \<and> (os_ReadFile fs destP = Inr content
            \<or> (\<exists>r \<in> set rs. \<exists>p. resourceCleanPath ok r = Some p \<and> filepath_Join [outd, p] = destP)
          \<longrightarrow> os_ReadFile fs' destP = Inr content)"
  using assms(1,2,3)
proof (induction rs arbitrary: fs)
  case Nil
  then show ?case by simp
next
  case (Cons r rs)
  from Cons.prems(1) obtain fs1 where
    one: "copyResource ok st art od outd r fs = (fs1, None)"
    and rest: "copyResources ok st art od outd rs fs1 = (fs', None)"
    by (auto split: prod.splits option.splits)
  have sep: "\<forall>r \<in> set rs. \<forall>p. resourceCleanPath ok r = Some p \<longrightarrow>
           filepath_Join [outd, p] \<noteq> srcP
           \<and> (filepath_Join [outd, p] = destP \<longrightarrow> filepath_Join [od, p] = srcP)"
    using Cons.prems(3) by simp
  have step: "os_ReadFile fs1 srcP = Inr content
      \<and> (os_ReadFile fs destP = Inr content
            \<or> (\<exists>p. resourceCleanPath ok r = Some p \<and> filepath_Join [outd, p] = destP)
          \<longrightarrow> os_ReadFile fs1 destP = Inr content)"
  proof (cases "resourceCleanPath ok r")
    case None
    then have "fs1 = fs"
      using one by (simp add: copyResource_def)
    then show ?thesis
      using Cons.prems(2) None by simp
  next
    case (Some p)
    have pne: "p \<noteq> []"
      using Some by (rule resourceCleanPath_not_Nil)
    have cl: "filepath_Clean (filepath_Join [outd, p]) = filepath_Join [outd, p]"
      "filepath_Clean (filepath_Join [od, p]) = filepath_Join [od, p]"
      using filepath_Join_not_Nil [OF pne] by (simp_all add: filepath_Clean_Join)
    have s1: "filepath_Join [outd, p] \<noteq> srcP"
      and s2: "filepath_Join [outd, p] = destP \<longrightarrow> filepath_Join [od, p] = srcP"
      using Cons.prems(3) Some by simp_all
    from copyResource_cases [OF one] show ?thesis
    proof
      assume same: "fs1 = fs"
      have "os_ReadFile fs1 destP = Inr content" if hit: "filepath_Join [outd, p] = destP"
      proof -
        have "filepath_Join [od, p] = srcP"
          using s2 hit by simp
        then have "os_ReadFile fs (filepath_Join [od, p]) = Inr content"
          using Cons.prems(2) by simp
        from copyResource_copied [OF one Some this] obtain fsm where
          "os_WriteFile fsm (filepath_Join [outd, p]) content = Inr fs1"
          by blast
        from os_WriteFile_then_ReadFile [OF this] show ?thesis
          using hit by simp
      qed
      then show ?thesis
        using same Cons.prems(2) Some by auto
    next
      assume "\<exists>p c fsm. resourceCleanPath ok r = Some p
             \<and> os_ReadFile fs (filepath_Join [od, p]) = Inr c
             \<and> os_MkdirAll fs (filepath_Dir (filepath_Join [outd, p])) = Inr fsm
             \<and> os_WriteFile fsm (filepath_Join [outd, p]) c = Inr fs1"
      then obtain c fsm where
        rd: "os_ReadFile fs (filepath_Join [od, p]) = Inr c"
        and mk: "os_MkdirAll fs (filepath_Dir (filepath_Join [outd, p])) = Inr fsm"
        and wr: "os_WriteFile fsm (filepath_Join [outd, p]) c = Inr fs1"
        using Some by auto
      have sep1: "filepath_Clean (filepath_Join [outd, p]) \<noteq> filepath_Clean srcP"
        using s1 cl assms(4) by simp
      have sep2: "filepath_Clean (filepath_Join [outd, p]) = filepath_Clean destP
          \<longrightarrow> filepath_Clean (filepath_Join [od, p]) = filepath_Clean srcP"
        using s2 cl assms(4,5) by simp
      note st = copy_step [OF rd mk wr Cons.prems(2) sep1 sep2 assms(6)]
      have "os_ReadFile fs1 destP = Inr content"
        if "os_ReadFile fs destP = Inr content \<or> filepath_Join [outd, p] = destP"
        using st(2) that cl assms(5) by auto
      then show ?thesis
        using st(1) Some by auto
    qed
  qed
  from Cons.IH [OF rest _ sep] step
  have ih: "os_ReadFile fs' srcP = Inr content
       \<and> (os_ReadFile fs1 destP = Inr content
            \<or> (\<exists>r \<in> set rs. \<exists>p. resourceCleanPath ok r = Some p \<and> filepath_Join [outd, p] = destP)
          \<longrightarrow> os_ReadFile fs' destP = Inr content)"
    by simp
  show ?case
    using ih step by auto
qed


lemma copyResources_skip_one:
  assumes "resourceCleanPath ok r = None"
  shows "copyResources ok st art od outd (rs1 @ r # rs2) fs = copyResources ok st art od outd (rs1 @ rs2) fs"
proof (induction rs1 arbitrary: fs)
  case Nil
  then show ?case
    using assms by (simp add: copyResource_def)
next
  case (Cons x rs1)
  then show ?case
    by (simp split: prod.splits option.splits)
qed

lemma CopyHtmlResources_skip_one:
  assumes "resourceCleanPath ok r = None"
  shows "CopyHtmlResources ok st a (rs1 @ r # rs2) fs = CopyHtmlResources ok st a (rs1 @ rs2) fs"
  unfolding CopyHtmlResources_def copyResources_skip_one [OF assms] ..

subsection \<open>The cover block\<close>

lemma resolveCoverImage_result:
  assumes "resolveCoverImage st b od outd fs = (fs', Inr b')"
  shows "b' = (if CoverImage b \<noteq> [] \<and> \<not> strings_HasPrefix (strings_ToLower (CoverImage b)) ''http''
               then b\<lparr>CoverImage := filepath_ToSlash
                        (filepath_Join [filepath_Dir (LinkToSelf b), CoverImage b])\<rparr>
               else b)"
  using assms
  by (auto simp: resolveCoverImage_def Let_def split: if_splits sum.splits)

lemma resolveCoverImage_cases:
  assumes "resolveCoverImage st b od outd fs = (fs', Inr b')"
  shows "(fs' = fs
          \<and> (CoverImage b \<noteq> [] \<and> \<not> strings_HasPrefix (strings_ToLower (CoverImage b)) ''http''
               \<and> \<not> isHtmlPage b
             \<longrightarrow> IgnoreErrors st \<and> (\<forall>img. os_ReadFile fs (filepath_Join [od, CoverImage b]) \<noteq> Inr img)))
       \<or> (\<exists>img fsm. CoverImage b \<noteq> []
             \<and> os_ReadFile fs (filepath_Join [od, CoverImage b]) = Inr img
             \<and> os_MkdirAll fs (filepath_Dir (filepath_Join [outd, CoverImage b])) = Inr fsm
             \<and> os_WriteFile fsm (filepath_Join [outd, CoverImage b]) img = Inr fs')"
  using assms
  by (auto simp: resolveCoverImage_def Let_def split: if_splits sum.splits)

subsection \<open>The run as a whole\<close>

lemma before_cover_block:
  "CoverImage (addPathTags st rel (removeDateFromTitle st a)) = CoverImage a"
  "OriginalPath (addPathTags st rel (removeDateFromTitle st a)) = OriginalPath a"
  "Created (addPathTags st rel (removeDateFromTitle st a)) = Created a"
  by (simp_all add: addPathTags_def removeDateFromTitle_def Let_def)

lemma CopyHtmlResources_run:
  assumes "CopyHtmlResources ok st a res fs = Some (fs', Inr a')"
  shows "\<exists>rel link fs1 fs2 b.
           filepath_Rel (InputPath st) (OriginalPath a) = Inr rel
           \<and> filepath_Rel (OutputPath st) (computeOutputPath st rel) = Inr link
           \<and> b = (addPathTags st rel (removeDateFromTitle st a))
                   \<lparr>LinkToSelf := filepath_ToSlash link,
                     LinkToSave := filepath_ToSlash (computeOutputPath st rel)\<rparr>
           \<and> os_MkdirAll fs (filepath_Dir (computeOutputPath st rel)) = Inr fs1
           \<and> (\<not> isHtmlPage b \<longrightarrow>
                copyResources ok st (addPathTags st rel (removeDateFromTitle st a))
                  (filepath_Dir (OriginalPath a)) (filepath_Dir (computeOutputPath st rel)) res fs1
                = (fs2, None))
           \<and> resolveCoverImage st b (filepath_Dir (OriginalPath a))
                 (filepath_Dir (computeOutputPath st rel)) fs2 = (fs', Inr a')"
proof -
  from assms obtain rel where rel: "filepath_Rel (InputPath st) (OriginalPath a) = Inr rel"
    by (auto simp: CopyHtmlResources_def split: sum.splits)
  define a2 where "a2 = addPathTags st rel (removeDateFromTitle st a)"
  define outputPath where "outputPath = computeOutputPath st rel"
  have op: "OriginalPath a2 = OriginalPath a"
    by (simp add: a2_def before_cover_block)
  from assms rel obtain fs1 where mk: "os_MkdirAll fs (filepath_Dir outputPath) = Inr fs1"
    unfolding CopyHtmlResources_def Let_def outputPath_def
    by (auto split: sum.splits)
  define copied where "copied =
      (if isHtmlPage a2 then
         (case copyDirectoryRecursively (filepath_Dir (OriginalPath a)) (filepath_Dir outputPath) fs1 of
            None \<Rightarrow> None
          | Some (fs2, Some e) \<Rightarrow>
              (if \<not> IgnoreErrors st then Some (fs2, Some (CopyDirectoryFailed (Title a2)))
               else Some (fs2, None))
          | Some (fs2, None) \<Rightarrow> Some (fs2, None))
       else Some (copyResources ok st a2 (filepath_Dir (OriginalPath a)) (filepath_Dir outputPath) res fs1))"
  have unf: "CopyHtmlResources ok st a res fs =
      (case copied of
         None \<Rightarrow> None
       | Some (fs2, Some err) \<Rightarrow> Some (fs2, Inl err)
       | Some (fs2, None) \<Rightarrow>
           (case filepath_Rel (OutputPath st) outputPath of
              Inl e \<Rightarrow> Some (fs2, Inl (RelativeLinkFailed (OutputPath st) outputPath))
            | Inr linkToSelf \<Rightarrow>
                Some (resolveCoverImage st
                        (a2\<lparr>LinkToSelf := filepath_ToSlash linkToSelf,
                             LinkToSave := filepath_ToSlash outputPath\<rparr>)
                        (filepath_Dir (OriginalPath a)) (filepath_Dir outputPath) fs2)))"
    unfolding CopyHtmlResources_def Let_def copied_def a2_def outputPath_def before_cover_block(2)
    using rel mk [unfolded outputPath_def] by simp
  from assms obtain fs2 where c: "copied = Some (fs2, None)"
    and after: "(case filepath_Rel (OutputPath st) outputPath of
              Inl e \<Rightarrow> Some (fs2, Inl (RelativeLinkFailed (OutputPath st) outputPath))
            | Inr linkToSelf \<Rightarrow>
                Some (resolveCoverImage st
                        (a2\<lparr>LinkToSelf := filepath_ToSlash linkToSelf,
                             LinkToSave := filepath_ToSlash outputPath\<rparr>)
                        (filepath_Dir (OriginalPath a)) (filepath_Dir outputPath) fs2))
        = Some (fs', Inr a')"
    unfolding unf by (cases copied) (auto split: prod.splits option.splits)
  from after obtain link where link: "filepath_Rel (OutputPath st) outputPath = Inr link"
    and cov: "resolveCoverImage st
                (a2\<lparr>LinkToSelf := filepath_ToSlash link, LinkToSave := filepath_ToSlash outputPath\<rparr>)
                (filepath_Dir (OriginalPath a)) (filepath_Dir outputPath) fs2 = (fs', Inr a')"
    by (cases "filepath_Rel (OutputPath st) outputPath") auto
  define b where "b = a2\<lparr>LinkToSelf := filepath_ToSlash link, LinkToSave := filepath_ToSlash outputPath\<rparr>"
  have page: "isHtmlPage b = isHtmlPage a2"
    by (simp add: b_def isHtmlPage_def)
  have sel: "\<not> isHtmlPage b \<longrightarrow>
      copyResources ok st a2 (filepath_Dir (OriginalPath a)) (filepath_Dir outputPath) res fs1 = (fs2, None)"
    using c page by (auto simp: copied_def)
  show ?thesis
    using rel link mk sel cov
    unfolding b_def [symmetric] a2_def [symmetric] outputPath_def [symmetric]
    by (intro exI [of _ rel] exI [of _ link] exI [of _ fs1] exI [of _ fs2] exI [of _ b])
       (simp add: b_def a2_def outputPath_def)
qed

text \<open>What the cover block leaves of the article: everything but the cover image.\<close>

lemma CopyHtmlResources_article:
  assumes "CopyHtmlResources ok st a res fs = Some (fs', Inr a')"
  shows "\<exists>rel link.
           filepath_Rel (InputPath st) (OriginalPath a) = Inr rel
           \<and> filepath_Rel (OutputPath st) (computeOutputPath st rel) = Inr link
           \<and> LinkToSelf a' = filepath_ToSlash link
           \<and> LinkToSave a' = computeOutputPath st rel
           \<and> OriginalPath a' = OriginalPath a
           \<and> Created a' = Created a
           \<and> CoverImage a'
               = (if CoverImage a \<noteq> [] \<and> \<not> strings_HasPrefix (strings_ToLower (CoverImage a)) ''http''
                  then filepath_ToSlash (filepath_Join [filepath_Dir (LinkToSelf a'), CoverImage a])
                  else CoverImage a)"
proof -
  from CopyHtmlResources_run [OF assms] obtain rel link fs2 b where
    rel: "filepath_Rel (InputPath st) (OriginalPath a) = Inr rel"
    and link: "filepath_Rel (OutputPath st) (computeOutputPath st rel) = Inr link"
    and b: "b = (addPathTags st rel (removeDateFromTitle st a))
                   \<lparr>LinkToSelf := filepath_ToSlash link,
                     LinkToSave := filepath_ToSlash (computeOutputPath st rel)\<rparr>"
    and cov: "resolveCoverImage st b (filepath_Dir (OriginalPath a))
                 (filepath_Dir (computeOutputPath st rel)) fs2 = (fs', Inr a')"
    by blast
  have fields: "LinkToSelf b = filepath_ToSlash link" "LinkToSave b = computeOutputPath st rel"
    "OriginalPath b = OriginalPath a" "Created b = Created a" "CoverImage b = CoverImage a"
    by (simp_all add: b before_cover_block filepath_ToSlash_def)
  from resolveCoverImage_result [OF cov] fields rel link show ?thesis
    by (intro exI [of _ rel] exI [of _ link]) auto
qed


lemma CopyHtmlResources_copies:
  assumes run: "CopyHtmlResources ok st a res fs = Some (fs', Inr a')"
    and nopage: "\<not> isHtmlPage a'"
    and r: "r \<in> set res" "resourceCleanPath ok r = Some p"
    and rd: "os_ReadFile fs (resourceOrigPath a p) = Inr content"
    and sep: "\<forall>r' \<in> set res. \<forall>p'. resourceCleanPath ok r' = Some p' \<longrightarrow>
                resourceDestPath a' p' \<noteq> resourceOrigPath a p
                \<and> (resourceDestPath a' p' = resourceDestPath a' p
                     \<longrightarrow> resourceOrigPath a p' = resourceOrigPath a p)"
    and sepc: "CoverImage a \<noteq> [] \<longrightarrow>
                resourceDestPath a' (CoverImage a) \<noteq> resourceOrigPath a p
                \<and> (resourceDestPath a' (CoverImage a) = resourceDestPath a' p
                     \<longrightarrow> resourceOrigPath a (CoverImage a) = resourceOrigPath a p)"
  shows "os_ReadFile fs' (resourceDestPath a' p) = Inr content"
proof -
  define od where "od = filepath_Dir (OriginalPath a)"
  define outd where "outd = filepath_Dir (LinkToSave a')"
  define srcP where "srcP = filepath_Join [od, p]"
  define destP where "destP = filepath_Join [outd, p]"
  have paths: "resourceOrigPath a x = filepath_Join [od, x]"
    "resourceDestPath a' x = filepath_Join [outd, x]" for x
    by (simp_all add: resourceOrigPath_def resourceDestPath_def od_def outd_def)
  from CopyHtmlResources_run [OF run] obtain rel link fs1 fs2 b where
    bdef: "b = (addPathTags st rel (removeDateFromTitle st a))
                   \<lparr>LinkToSelf := filepath_ToSlash link,
                     LinkToSave := filepath_ToSlash (computeOutputPath st rel)\<rparr>"
    and mk0: "os_MkdirAll fs (filepath_Dir (computeOutputPath st rel)) = Inr fs1"
    and loop0: "\<not> isHtmlPage b \<longrightarrow>
                copyResources ok st (addPathTags st rel (removeDateFromTitle st a))
                  (filepath_Dir (OriginalPath a)) (filepath_Dir (computeOutputPath st rel)) res fs1
                = (fs2, None)"
    and cov0: "resolveCoverImage st b (filepath_Dir (OriginalPath a))
                 (filepath_Dir (computeOutputPath st rel)) fs2 = (fs', Inr a')"
    by blast
  have b: "CoverImage b = CoverImage a"
    by (simp add: bdef before_cover_block)
  have save: "LinkToSave a' = computeOutputPath st rel"
    using resolveCoverImage_result [OF cov0] by (auto simp: bdef filepath_ToSlash_def)
  have mk: "os_MkdirAll fs outd = Inr fs1"
    and loop: "\<not> isHtmlPage b \<longrightarrow>
          copyResources ok st (addPathTags st rel (removeDateFromTitle st a)) od outd res fs1 = (fs2, None)"
    and cov: "resolveCoverImage st b od outd fs2 = (fs', Inr a')"
    using mk0 loop0 cov0 unfolding od_def outd_def save by simp_all
  have "isHtmlPage a' = isHtmlPage b"
    using resolveCoverImage_result [OF cov] by (auto simp: isHtmlPage_def)
  then have loop': "copyResources ok st (addPathTags st rel (removeDateFromTitle st a)) od outd res fs1
      = (fs2, None)"
    using loop nopage by simp
  have pne: "p \<noteq> []"
    using r(2) by (rule resourceCleanPath_not_Nil)
  have clean: "filepath_Clean srcP = srcP" "filepath_Clean destP = destP" "destP \<noteq> []"
    unfolding srcP_def destP_def
    using filepath_Join_not_Nil [OF pne] by (simp_all add: filepath_Clean_Join)
  have rd1: "os_ReadFile fs1 srcP = Inr content"
    using os_MkdirAll_files [OF mk, of srcP content] rd by (simp add: paths srcP_def)
  have sep': "\<forall>r \<in> set res. \<forall>p. resourceCleanPath ok r = Some p \<longrightarrow>
           filepath_Join [outd, p] \<noteq> srcP
           \<and> (filepath_Join [outd, p] = destP \<longrightarrow> filepath_Join [od, p] = srcP)"
    using sep by (simp add: paths srcP_def destP_def)
  have hit: "\<exists>r \<in> set res. \<exists>p. resourceCleanPath ok r = Some p \<and> filepath_Join [outd, p] = destP"
    using r by (auto simp: destP_def)
  from copyResources_invariant [OF loop' rd1 sep' clean] hit
  have two: "os_ReadFile fs2 srcP = Inr content" "os_ReadFile fs2 destP = Inr content"
    by blast+
  from resolveCoverImage_cases [OF cov] have "os_ReadFile fs' destP = Inr content"
  proof
    assume "fs' = fs2 \<and>
      (CoverImage b \<noteq> [] \<and> \<not> strings_HasPrefix (strings_ToLower (CoverImage b)) ''http''
         \<and> \<not> isHtmlPage b
       \<longrightarrow> IgnoreErrors st \<and> (\<forall>img. os_ReadFile fs2 (filepath_Join [od, CoverImage b]) \<noteq> Inr img))"
    then show ?thesis
      using two by simp
  next
    assume "\<exists>img fsm. CoverImage b \<noteq> []
             \<and> os_ReadFile fs2 (filepath_Join [od, CoverImage b]) = Inr img
             \<and> os_MkdirAll fs2 (filepath_Dir (filepath_Join [outd, CoverImage b])) = Inr fsm
             \<and> os_WriteFile fsm (filepath_Join [outd, CoverImage b]) img = Inr fs'"
    then obtain img fsm where cne: "CoverImage a \<noteq> []"
      and crd: "os_ReadFile fs2 (filepath_Join [od, CoverImage a]) = Inr img"
      and cmk: "os_MkdirAll fs2 (filepath_Dir (filepath_Join [outd, CoverImage a])) = Inr fsm"
      and cwr: "os_WriteFile fsm (filepath_Join [outd, CoverImage a]) img = Inr fs'"
      using b by auto
    have cl: "filepath_Clean (filepath_Join [outd, CoverImage a]) = filepath_Join [outd, CoverImage a]"
      "filepath_Clean (filepath_Join [od, CoverImage a]) = filepath_Join [od, CoverImage a]"
      using filepath_Join_not_Nil [OF cne] by (simp_all add: filepath_Clean_Join)
    have s1: "filepath_Clean (filepath_Join [outd, CoverImage a]) \<noteq> filepath_Clean srcP"
      using sepc cne cl clean by (simp add: paths srcP_def)
    have s2: "filepath_Clean (filepath_Join [outd, CoverImage a]) = filepath_Clean destP
        \<longrightarrow> filepath_Clean (filepath_Join [od, CoverImage a]) = filepath_Clean srcP"
      using sepc cne cl clean by (simp add: paths srcP_def destP_def)
    from copy_step(2) [OF crd cmk cwr two(1) s1 s2 clean(3)] two(2) show ?thesis
      by simp
  qed
  then show ?thesis
    by (simp add: paths destP_def)
qed



subsection \<open>Claim C1\<close>

text \<open>
  Claim C1 states that a leading slash makes a reference relative to the site root, and
  that the query string and the fragment are stripped. The loop removes the slash and
  joins what is left to the directory of the article: in the small site the run for the
  article in \<open>content/blog\<close> with the reference \<open>/logo.png\<close> looks for
  \<open>content/blog/logo.png\<close> and fails, although the logo lies at the root of the content
  directory. A reference that \<open>url.Parse\<close> rejects keeps its query: the file
  \<open>a%zz.png?x=1\<close> is copied under that name, and nothing is written to \<open>a%zz.png\<close>.
  And what a reference has copied, a later reference with the same destination
  overwrites: after the run for \<open>x.png\<close> and \<open>../my-post/x.png\<close> the output holds the
  second file under \<open>x.png\<close>.
\<close>

theorem C1_leading_slash_counterexample:
  "os_ReadFile demoFS (filepath_Join [InputPath demoSettings, ''logo.png'']) = Inr ''LOGO''
   \<and> map_option snd (CopyHtmlResources acceptAuthority demoSettings demoArticle [''/logo.png''] demoFS)
       = Some (Inl (ResourceNotFound ''content/blog/logo.png'' ''my post''))
   \<and> os_ReadFile
         (fst (the (CopyHtmlResources acceptAuthority demoSettings demoArticle [''a%zz.png?x=1'']
                      (demoFS @ [(''content/blog/a%zz.png?x=1'', File ''Q'')]))))
         ''public/blog/my-post/a%zz.png?x=1'' = Inr ''Q''
   \<and> os_ReadFile
         (fst (the (CopyHtmlResources acceptAuthority demoSettings demoArticle [''a%zz.png?x=1'']
                      (demoFS @ [(''content/blog/a%zz.png?x=1'', File ''Q'')]))))
         ''public/blog/my-post/a%zz.png'' = Inl (NotExist ''public/blog/my-post/a%zz.png'')
   \<and> resourceOrigPath demoArticle ''x.png'' = ''content/blog/x.png''
   \<and> os_ReadFile
         (fst (the (CopyHtmlResources acceptAuthority demoSettings demoArticle
                      [''x.png'', ''../my-post/x.png'']
                      (demoFS @ [(''content/blog/x.png'', File ''A''), (''content/my-post'', Dir),
                                 (''content/my-post/x.png'', File ''B'')]))))
         ''public/blog/my-post/x.png'' = Inr ''B''"
  by code_simp

text \<open>
  Claim C1, amended. For every raw reference \<open>r\<close> of an article (trimmed of white space
  by the loop): (1) an absolute external URL, (2) a reference that begins with \<open>#\<close>,
  \<open>mailto:\<close>, \<open>tel:\<close>, \<open>sms:\<close> or \<open>www.\<close>, and (3) a reference whose cleaned path has
  the extension \<open>.md\<close>, \<open>.markdown\<close>, \<open>.html\<close> or \<open>.htm\<close>, or none, is never copied: the
  run with the reference in the list is the run without it. (4) A reference that passes
  these tests with cleaned path \<open>p\<close> is copied from the directory of the article's
  source file joined with \<open>p\<close> to the article's output directory joined with \<open>p\<close>: after
  a successful run that did not copy the whole directory, the destination holds the
  bytes the source had before the run, provided that the run writes no file onto that
  source and that everything it writes to that destination comes from that source.
  (5) For a reference without control bytes, colon or percent sign that passes tests
  (1) and (2), the cleaned path is the text before the first \<open>?\<close> or \<open>#\<close> without its
  leading slash.
\<close>

theorem C1_selective_copy:
  "(isAbsoluteExternalURL (strings_ToLower (strings_TrimSpace r))
      \<longrightarrow> CopyHtmlResources ok st a (rs1 @ r # rs2) fs = CopyHtmlResources ok st a (rs1 @ rs2) fs)
   \<and> (isNonResourceLink (strings_ToLower (strings_TrimSpace r))
      \<longrightarrow> CopyHtmlResources ok st a (rs1 @ r # rs2) fs = CopyHtmlResources ok st a (rs1 @ rs2) fs)
   \<and> (cleanPathOf ok (strings_TrimSpace r) = Some q
        \<and> (isContentFileExt (strings_ToLower (filepath_Ext q)) \<or> filepath_Ext q = [])
      \<longrightarrow> CopyHtmlResources ok st a (rs1 @ r # rs2) fs = CopyHtmlResources ok st a (rs1 @ rs2) fs)
   \<and> (CopyHtmlResources ok st a res fs = Some (fs', Inr a')
        \<and> \<not> isHtmlPage a'
        \<and> r \<in> set res
        \<and> resourceCleanPath ok r = Some p
        \<and> os_ReadFile fs (resourceOrigPath a p) = Inr content
        \<and> (\<forall>r' \<in> set res. \<forall>p'. resourceCleanPath ok r' = Some p' \<longrightarrow>
              resourceDestPath a' p' \<noteq> resourceOrigPath a p
              \<and> (resourceDestPath a' p' = resourceDestPath a' p
                   \<longrightarrow> resourceOrigPath a p' = resourceOrigPath a p))
        \<and> (CoverImage a \<noteq> [] \<longrightarrow>
              resourceDestPath a' (CoverImage a) \<noteq> resourceOrigPath a p
              \<and> (resourceDestPath a' (CoverImage a) = resourceDestPath a' p
                   \<longrightarrow> resourceOrigPath a (CoverImage a) = resourceOrigPath a p))
      \<longrightarrow> os_ReadFile fs' (resourceDestPath a' p) = Inr content)
   \<and> (strings_TrimSpace r \<noteq> []
        \<and> \<not> isAbsoluteExternalURL (strings_ToLower (strings_TrimSpace r))
        \<and> \<not> isNonResourceLink (strings_ToLower (strings_TrimSpace r))
        \<and> (\<forall>c \<in> set (strings_TrimSpace r).
               \<not> ((of_char c :: nat) < 32 \<or> (of_char c :: nat) = 127)
               \<and> c \<noteq> CHR '':'' \<and> c \<noteq> CHR ''%'')
        \<and> p = strings_TrimPrefix
                (takeWhile (\<lambda>c. c \<noteq> CHR ''?'' \<and> c \<noteq> CHR ''#'') (strings_TrimSpace r)) ''/''
        \<and> p \<noteq> []
        \<and> \<not> isContentFileExt (strings_ToLower (filepath_Ext p)) \<and> filepath_Ext p \<noteq> []
      \<longrightarrow> resourceCleanPath ok r = Some p)"
proof (intro conjI impI)
  assume "isAbsoluteExternalURL (strings_ToLower (strings_TrimSpace r))"
  then show "CopyHtmlResources ok st a (rs1 @ r # rs2) fs = CopyHtmlResources ok st a (rs1 @ rs2) fs"
    by (intro CopyHtmlResources_skip_one skip_external)
next
  assume "isNonResourceLink (strings_ToLower (strings_TrimSpace r))"
  then show "CopyHtmlResources ok st a (rs1 @ r # rs2) fs = CopyHtmlResources ok st a (rs1 @ rs2) fs"
    by (intro CopyHtmlResources_skip_one skip_nonresource)
next
  assume "cleanPathOf ok (strings_TrimSpace r) = Some q
        \<and> (isContentFileExt (strings_ToLower (filepath_Ext q)) \<or> filepath_Ext q = [])"
  then show "CopyHtmlResources ok st a (rs1 @ r # rs2) fs = CopyHtmlResources ok st a (rs1 @ rs2) fs"
    by (intro CopyHtmlResources_skip_one skip_by_extension [of ok r q]) auto
next
  assume h: "CopyHtmlResources ok st a res fs = Some (fs', Inr a')
        \<and> \<not> isHtmlPage a'
        \<and> r \<in> set res
        \<and> resourceCleanPath ok r = Some p
        \<and> os_ReadFile fs (resourceOrigPath a p) = Inr content
        \<and> (\<forall>r' \<in> set res. \<forall>p'. resourceCleanPath ok r' = Some p' \<longrightarrow>
              resourceDestPath a' p' \<noteq> resourceOrigPath a p
              \<and> (resourceDestPath a' p' = resourceDestPath a' p
                   \<longrightarrow> resourceOrigPath a p' = resourceOrigPath a p))
        \<and> (CoverImage a \<noteq> [] \<longrightarrow>
              resourceDestPath a' (CoverImage a) \<noteq> resourceOrigPath a p
              \<and> (resourceDestPath a' (CoverImage a) = resourceDestPath a' p
                   \<longrightarrow> resourceOrigPath a (CoverImage a) = resourceOrigPath a p))"
  show "os_ReadFile fs' (resourceDestPath a' p) = Inr content"
    by (rule CopyHtmlResources_copies [of ok st a res fs fs' a' r p content]) (use h in blast)+
next
  assume a: "strings_TrimSpace r \<noteq> []
        \<and> \<not> isAbsoluteExternalURL (strings_ToLower (strings_TrimSpace r))
        \<and> \<not> isNonResourceLink (strings_ToLower (strings_TrimSpace r))
        \<and> (\<forall>c \<in> set (strings_TrimSpace r).
               \<not> ((of_char c :: nat) < 32 \<or> (of_char c :: nat) = 127)
               \<and> c \<noteq> CHR '':'' \<and> c \<noteq> CHR ''%'')
        \<and> p = strings_TrimPrefix
                (takeWhile (\<lambda>c. c \<noteq> CHR ''?'' \<and> c \<noteq> CHR ''#'') (strings_TrimSpace r)) ''/''
        \<and> p \<noteq> []
        \<and> \<not> isContentFileExt (strings_ToLower (filepath_Ext p)) \<and> filepath_Ext p \<noteq> []"
  define t where "t = strings_TrimSpace r"
  have "\<not> strings_HasPrefix (strings_ToLower t) ''//''"
    using a by (simp add: isAbsoluteExternalURL_def t_def)
  then have ns: "\<not> strings_HasPrefix t ''//''"
    using ToLower_keeps_slashes by blast
  have cp: "cleanPathOf ok t = Some p"
    using a ns unfolding t_def [symmetric] by (intro cleanPathOf_strips) auto
  from a have e: "\<not> isContentFileExt (strings_ToLower (filepath_Ext p))" "filepath_Ext p \<noteq> []"
    and n: "t \<noteq> []" "\<not> isAbsoluteExternalURL (strings_ToLower t)"
      "\<not> isNonResourceLink (strings_ToLower t)"
    unfolding t_def by blast+
  have "strings_ToLower (filepath_Ext p) \<noteq> []"
    using e(2) by (cases "filepath_Ext p" rule: strings_ToLower.cases) auto
  then show "resourceCleanPath ok r = Some p"
    using e(1) n cp unfolding resourceCleanPath_def t_def [symmetric] by (simp add: Let_def)
qed


theorem C1_selective_copy_witness:
  "CopyHtmlResources acceptAuthority demoSettings demoArticle
       [''img/x.png'', ''https://example.com/x.png''] demoFS
     = CopyHtmlResources acceptAuthority demoSettings demoArticle [''img/x.png''] demoFS
   \<and> CopyHtmlResources acceptAuthority demoSettings demoArticle [''img/x.png'', ''#section''] demoFS
     = CopyHtmlResources acceptAuthority demoSettings demoArticle [''img/x.png''] demoFS
   \<and> CopyHtmlResources acceptAuthority demoSettings demoArticle [''img/x.png'', ''about''] demoFS
     = CopyHtmlResources acceptAuthority demoSettings demoArticle [''img/x.png''] demoFS
   \<and> resourceCleanPath acceptAuthority ''/img/x.png?v=2#top'' = Some ''img/x.png''
   \<and> resourceOrigPath demoArticle ''img/x.png'' = ''content/blog/img/x.png''
   \<and> os_ReadFile demoFS ''content/blog/img/x.png'' = Inr ''PNG''
   \<and> os_ReadFile
         (fst (the (CopyHtmlResources acceptAuthority demoSettings demoArticle
                      [''/img/x.png?v=2#top'', ''#section''] demoFS)))
         ''public/blog/my-post/img/x.png'' = Inr ''PNG''"
proof -
  define run where "run = CopyHtmlResources acceptAuthority demoSettings demoArticle
                      [''/img/x.png?v=2#top'', ''#section''] demoFS"
  define aR where "aR = demoArticle\<lparr>Title := ''my post'', Tags := [''blog''],
                LinkToSelf := ''blog/my-post/index.html'',
                LinkToSave := ''public/blog/my-post/index.html'',
                CoverImage := ''blog/my-post/cover.png''\<rparr>"
  have h1: "isAbsoluteExternalURL (strings_ToLower (strings_TrimSpace ''https://example.com/x.png''))"
    by code_simp
  have h2: "isNonResourceLink (strings_ToLower (strings_TrimSpace ''#section''))"
    by code_simp
  have h3: "cleanPathOf acceptAuthority (strings_TrimSpace ''about'') = Some ''about''
            \<and> (isContentFileExt (strings_ToLower (filepath_Ext ''about'')) \<or> filepath_Ext ''about'' = [])"
    by code_simp
  have t: "strings_TrimSpace ''/img/x.png?v=2#top'' = ''/img/x.png?v=2#top''"
    by code_simp
  have h5: "strings_TrimSpace ''/img/x.png?v=2#top'' \<noteq> []
        \<and> \<not> isAbsoluteExternalURL (strings_ToLower (strings_TrimSpace ''/img/x.png?v=2#top''))
        \<and> \<not> isNonResourceLink (strings_ToLower (strings_TrimSpace ''/img/x.png?v=2#top''))
        \<and> (\<forall>c \<in> set (strings_TrimSpace ''/img/x.png?v=2#top'').
               \<not> ((of_char c :: nat) < 32 \<or> (of_char c :: nat) = 127)
               \<and> c \<noteq> CHR '':'' \<and> c \<noteq> CHR ''%'')
        \<and> ''img/x.png'' = strings_TrimPrefix
                (takeWhile (\<lambda>c. c \<noteq> CHR ''?'' \<and> c \<noteq> CHR ''#'')
                   (strings_TrimSpace ''/img/x.png?v=2#top'')) ''/''
        \<and> ''img/x.png'' \<noteq> []
        \<and> \<not> isContentFileExt (strings_ToLower (filepath_Ext ''img/x.png''))
        \<and> filepath_Ext ''img/x.png'' \<noteq> []"
    unfolding t by code_simp
  note c1 = C1_selective_copy [where r = "''https://example.com/x.png''" and ok = acceptAuthority
      and st = demoSettings and a = demoArticle and ?rs1.0 = "[''img/x.png'']" and ?rs2.0 = "[]"
      and fs = demoFS]
  note c2 = C1_selective_copy [where r = "''#section''" and ok = acceptAuthority
      and st = demoSettings and a = demoArticle and ?rs1.0 = "[''img/x.png'']" and ?rs2.0 = "[]"
      and fs = demoFS]
  note c3 = C1_selective_copy [where r = "''about''" and ok = acceptAuthority
      and st = demoSettings and a = demoArticle and ?rs1.0 = "[''img/x.png'']" and ?rs2.0 = "[]"
      and fs = demoFS and q = "''about''"]
  note c4 = C1_selective_copy [where r = "''/img/x.png?v=2#top''" and ok = acceptAuthority
      and st = demoSettings and a = demoArticle and fs = demoFS
      and res = "[''/img/x.png?v=2#top'', ''#section'']" and p = "''img/x.png''"
      and content = "''PNG''" and fs' = "fst (the run)" and a' = aR]
  have 1: "CopyHtmlResources acceptAuthority demoSettings demoArticle
       [''img/x.png'', ''https://example.com/x.png''] demoFS
     = CopyHtmlResources acceptAuthority demoSettings demoArticle [''img/x.png''] demoFS"
    using c1 h1 by simp
  have 2: "CopyHtmlResources acceptAuthority demoSettings demoArticle [''img/x.png'', ''#section''] demoFS
     = CopyHtmlResources acceptAuthority demoSettings demoArticle [''img/x.png''] demoFS"
    using c2 h2 by simp
  have 3: "CopyHtmlResources acceptAuthority demoSettings demoArticle [''img/x.png'', ''about''] demoFS
     = CopyHtmlResources acceptAuthority demoSettings demoArticle [''img/x.png''] demoFS"
    using c3 h3 by simp
  have 5: "resourceCleanPath acceptAuthority ''/img/x.png?v=2#top'' = Some ''img/x.png''"
    by (rule c4 [THEN conjunct2, THEN conjunct2, THEN conjunct2, THEN conjunct2, THEN mp, OF h5])
  have skip: "resourceCleanPath acceptAuthority ''#section'' = None"
    using h2 by (rule skip_nonresource)
  have "map_option snd run = Some (Inr aR)"
    unfolding run_def aR_def by code_simp
  then have whole: "CopyHtmlResources acceptAuthority demoSettings demoArticle
        [''/img/x.png?v=2#top'', ''#section''] demoFS = Some (fst (the run), Inr aR)"
    unfolding run_def [symmetric] by (cases run) auto
  have nopage: "\<not> isHtmlPage aR"
    unfolding aR_def by code_simp
  have paths: "resourceOrigPath demoArticle ''img/x.png'' = ''content/blog/img/x.png''"
    "resourceDestPath aR ''img/x.png'' = ''public/blog/my-post/img/x.png''"
    "resourceOrigPath demoArticle ''cover.png'' = ''content/blog/cover.png''"
    "resourceDestPath aR ''cover.png'' = ''public/blog/my-post/cover.png''"
    "CoverImage demoArticle = ''cover.png''"
    unfolding aR_def by code_simp+
  have rd: "os_ReadFile demoFS ''content/blog/img/x.png'' = Inr ''PNG''"
    by code_simp
  have 4: "os_ReadFile (fst (the run)) (resourceDestPath aR ''img/x.png'') = Inr ''PNG''"
    by (rule c4 [THEN conjunct2, THEN conjunct2, THEN conjunct2, THEN conjunct1, THEN mp])
       (simp add: whole nopage 5 skip rd paths)
  show ?thesis
    using 1 2 3 4 5 rd paths unfolding run_def by simp
qed


subsection \<open>Claim C7\<close>





section \<open>Properties of the creation date\<close>

lemma appendTags_Created:
  "appendTags article tags = Inr article' \<Longrightarrow> Created article' = Created article"
  by (induction article tags rule: appendTags.induct) (auto split: sum.splits)

lemma applyField_Created:
  assumes res: "applyField article entry = Inr article'"
  shows "Created article' = Created article \<or> Created article' \<in> set (createdInFrontmatter entry)"
proof -
  define name where "name = strings_ToLower (strings_TrimSpace (fst entry))"
  define v where "v = snd entry"
  show ?thesis
  proof (cases "v \<noteq> FmNil \<and> name = ''created''")
    case True
    then show ?thesis
      using res
      by (auto simp: applyField_def createdInFrontmatter_def Let_def name_def v_def
          split: option.splits)
  next
    case False
    note notcreated = this
    show ?thesis
    proof (cases "v \<noteq> FmNil \<and> name = ''tags''")
      case True
      then show ?thesis
        using res appendTags_Created
        by (auto simp: applyField_def Let_def name_def v_def split: fmValue.splits)
    next
      case False
      then have "Created article' = Created article"
        using res notcreated
        by (auto simp: applyField_def Let_def name_def v_def
            split: if_splits sum.splits option.splits)
      then show ?thesis by simp
    qed
  qed
qed

lemma applyFields_Created:
  "applyFields article entries = Inr article' \<Longrightarrow>
     Created article' = Created article
     \<or> Created article' \<in> set (concat (map createdInFrontmatter entries))"
proof (induction entries arbitrary: article)
  case Nil
  then show ?case by simp
next
  case (Cons entry entries)
  from Cons.prems obtain a1 where one: "applyField article entry = Inr a1"
    and rest: "applyFields a1 entries = Inr article'"
    by (auto split: sum.splits)
  from Cons.IH [OF rest] applyField_Created [OF one] show ?case
    by auto
qed

lemma MarkdownFile_Created:
  assumes "MarkdownFile_article path data html fm (Some modTime) = Inr article"
  shows "Created article \<in> set (dateSources path fm modTime)"
proof -
  define a0 where "a0 = Article_zero\<lparr>OriginalPath := path, TextContent := data, HtmlContent := html\<rparr>"
  define fmDates where
    "fmDates = (case fm of Decoded entries \<Rightarrow> concat (map createdInFrontmatter entries) | _ \<Rightarrow> [])"
  define decoded where
    "decoded = (case fm of NoFrontmatter \<Rightarrow> Inr a0
           | Undecodable \<Rightarrow> Inl (FrontmatterDecodeFailed path)
           | Decoded entries \<Rightarrow> applyFields a0 entries)"
  have unf: "MarkdownFile_article path data html fm (Some modTime)
      = (case decoded of Inl e \<Rightarrow> Inl e | Inr a \<Rightarrow> Inr (fillDefaults path modTime a))"
    unfolding MarkdownFile_article_def Let_def a0_def decoded_def
    by (simp split: sum.splits)
  obtain a1 where dec0: "decoded = Inr a1" and art: "article = fillDefaults path modTime a1"
    using assms unfolding unf by (cases decoded) auto
  note dec = dec0 [unfolded decoded_def]
  have zero: "Created a0 = 0"
    by (simp add: a0_def Article_zero_def)
  have a1: "Created a1 = 0 \<or> Created a1 \<in> set fmDates"
  proof (cases fm)
    case NoFrontmatter
    then show ?thesis using dec zero by simp
  next
    case Undecodable
    then show ?thesis using dec by simp
  next
    case (Decoded entries)
    then have "applyFields a0 entries = Inr a1"
      using dec by simp
    from applyFields_Created [OF this] show ?thesis
      using zero Decoded by (simp add: fmDates_def)
  qed
  have src: "set (dateSources path fm modTime)
      = set fmDates \<union> set (case DateTimeFromString path of Inr t \<Rightarrow> [t] | Inl e \<Rightarrow> []) \<union> {modTime}"
    by (simp add: dateSources_def fmDates_def)
  have cr: "Created article
      = (if Created a1 = 0
         then (case DateTimeFromString path of Inr t \<Rightarrow> t | Inl e \<Rightarrow> modTime)
         else Created a1)"
    by (simp add: art fillDefaults_def Let_def Time_IsZero_def)
  show ?thesis
  proof (cases "Created a1 = 0")
    case True
    then show ?thesis
      unfolding cr src by (cases "DateTimeFromString path") auto
  next
    case False
    then show ?thesis
      unfolding cr src using a1 by auto
  qed
qed

lemma applyMeta_Created:
  assumes "applyMeta st path article attrs = Inr article'"
  shows "Created article' = Created article \<or> Created article' \<in> set (createdInMeta attrs)"
proof (cases "fst (metaKeyVal attrs) = ''created'' \<and> snd (metaKeyVal attrs) \<noteq> []")
  case True
  then show ?thesis
    using assms by (auto simp: applyMeta_def createdInMeta_def Let_def split: sum.splits if_splits)
next
  case False
  then have "Created article' = Created article"
    using assms by (auto simp: applyMeta_def Let_def split: if_splits sum.splits)
  then show ?thesis by simp
qed

lemma applyMetas_Created:
  "applyMetas st path article tags = Inr article' \<Longrightarrow>
     Created article' = Created article \<or> Created article' \<in> set (concat (map createdInMeta tags))"
proof (induction tags arbitrary: article)
  case Nil
  then show ?case by simp
next
  case (Cons attrs tags)
  from Cons.prems obtain a1 where one: "applyMeta st path article attrs = Inr a1"
    and rest: "applyMetas st path a1 tags = Inr article'"
    by (auto split: sum.splits)
  from Cons.IH [OF rest] applyMeta_Created [OF one] show ?case
    by auto
qed

lemma HTMLFile_Created:
  assumes "HTMLFile_article path st htmlContent textContent (Some doc) (Some modTime) = Inr article"
  shows "Created article \<in> set (htmlDateSources path doc modTime)"
proof -
  define a3 where "a3 =
     (let article0 = Article_zero\<lparr>OriginalPath := path, HtmlContent := htmlContent,
                                        TextContent := textContent\<rparr>;
          article1 = article0\<lparr>BodyContent :=
                            (case bodyContent doc of Some body \<Rightarrow> body | None \<Rightarrow> htmlContent)\<rparr>;
          article2 = (case titleData doc of
                             Some title \<Rightarrow> article1\<lparr>Title := title\<rparr>
                           | None \<Rightarrow> article1)
      in if Title article2 = []
         then article2\<lparr>Title := strings_TrimSuffix (filepath_Base path) (filepath_Ext path)\<rparr>
         else article2)"
  have zero: "Created a3 = 0"
    by (simp add: a3_def Article_zero_def Let_def split: option.splits)
  have unf: "HTMLFile_article path st htmlContent textContent (Some doc) (Some modTime)
      = (case applyMetas st path a3 (metaTags doc) of
           Inl e \<Rightarrow> Inl e | Inr a \<Rightarrow> Inr (fillDates path modTime a))"
    unfolding HTMLFile_article_def a3_def Let_def by (simp split: sum.splits)
  obtain a4 where metas: "applyMetas st path a3 (metaTags doc) = Inr a4"
    and art: "article = fillDates path modTime a4"
    using assms unfolding unf by (cases "applyMetas st path a3 (metaTags doc)") auto
  have a4: "Created a4 = 0 \<or> Created a4 \<in> set (concat (map createdInMeta (metaTags doc)))"
    using applyMetas_Created [OF metas] zero by simp
  have cr: "Created article
      = (if Created a4 = 0
         then (case DateTimeFromString path of Inr t \<Rightarrow> t | Inl e \<Rightarrow> modTime)
         else Created a4)"
    by (simp add: art fillDates_def Let_def Time_IsZero_def)
  show ?thesis
  proof (cases "Created a4 = 0")
    case True
    then show ?thesis
      unfolding cr htmlDateSources_def by (cases "DateTimeFromString path") auto
  next
    case False
    then show ?thesis
      unfolding cr htmlDateSources_def using a4 by auto
  qed
qed

lemma CopyHtmlResources_Created:
  assumes "CopyHtmlResources ok st a res fs = Some (fs', Inr a')"
  shows "Created a' = Created a"
  using CopyHtmlResources_article [OF assms] by blast

lemma FormatMarkdown_Created:
  "FormatMarkdown tmpl article st = Inr article' \<Longrightarrow> Created article' = Created article"
  by (auto simp: FormatMarkdown_def split: option.splits)

text \<open>
  Claim C8 states that \<open>Created\<close> never lies after the time of the build. Nothing
  compares the date with the clock: a frontmatter that says \<open>created: 2999-01-01\<close>,
  in a file last changed at the time of the build, gives an article created in 2999.
\<close>

theorem C8_future_frontmatter_date_counterexample:
  "map_sum id Created
     (MarkdownFile_article ''content/post.md'' ''# hi'' ''<h1>hi</h1>''
        (Decoded [(''created'', FmString ''2999-01-01'')]) (Some (time_Date 2026 11 3 0 0 0 0)))
     = Inr (time_Date 2999 1 1 0 0 0 0)
   \<and> \<not> time_Date 2999 1 1 0 0 0 0 \<le> time_Date 2026 11 3 0 0 0 0"
  by code_simp

text \<open>
  Claim C8, amended. For every article of a build, \<open>Created\<close> is one of the timestamps
  its file offers: a \<open>created\<close> value of the frontmatter (for a Markdown file) or of a
  \<open>meta\<close> element (for an HTML file), the date in the path, or the modification time;
  the resolver and the article template, through which the orchestrator passes the
  article of either parser, leave \<open>Created\<close> as it is. So \<open>Created\<close> is at most the
  time of the build whenever all of these timestamps are.
\<close>

theorem C8_created_is_a_date_source:
  "(MarkdownFile_article path data html fm (Some modTime) = Inr article
      \<longrightarrow> Created article \<in> set (dateSources path fm modTime)
          \<and> ((\<forall>t \<in> set (dateSources path fm modTime). t \<le> now) \<longrightarrow> Created article \<le> now))
   \<and> (HTMLFile_article path st htmlContent textContent (Some doc) (Some modTime) = Inr article
      \<longrightarrow> Created article \<in> set (htmlDateSources path doc modTime)
          \<and> ((\<forall>t \<in> set (htmlDateSources path doc modTime). t \<le> now) \<longrightarrow> Created article \<le> now))
   \<and> (CopyHtmlResources ok st article res fs = Some (fs', Inr article')
      \<longrightarrow> Created article' = Created article)
   \<and> (FormatMarkdown tmpl article st = Inr article' \<longrightarrow> Created article' = Created article)"
  using MarkdownFile_Created [of path data html fm modTime article]
    HTMLFile_Created [of path st htmlContent textContent doc modTime article]
    CopyHtmlResources_Created [of ok st article res fs fs' article']
    FormatMarkdown_Created [of tmpl article st article']
  by blast


theorem C8_created_is_a_date_source_witness:
  "map_sum id Created
     (MarkdownFile_article ''content/2024 05 06 post.md'' ''# hi'' ''<h1>hi</h1>''
        NoFrontmatter (Some (time_Date 2026 11 3 0 0 0 0)))
     = Inr (time_Date 2024 5 6 0 0 0 0)
   \<and> dateSources ''content/2024 05 06 post.md'' NoFrontmatter (time_Date 2026 11 3 0 0 0 0)
       = [time_Date 2024 5 6 0 0 0 0, time_Date 2026 11 3 0 0 0 0]
   \<and> time_Date 2024 5 6 0 0 0 0 \<le> time_Date 2026 11 3 0 0 0 0
   \<and> map_sum id Created
         (HTMLFile_article ''content/about.html'' demoSettings ''<html>'' ''hello'' (Some demoDoc)
            (Some (time_Date 2026 11 3 0 0 0 0)))
       = Inr (time_Date 2024 1 2 0 0 0 0)
   \<and> htmlDateSources ''content/about.html'' demoDoc (time_Date 2026 11 3 0 0 0 0)
       = [time_Date 2024 1 2 0 0 0 0, time_Date 2026 11 3 0 0 0 0]
   \<and> time_Date 2024 1 2 0 0 0 0 \<le> time_Date 2026 11 3 0 0 0 0
   \<and> map_option (map_sum id Created \<circ> snd)
         (CopyHtmlResources acceptAuthority demoSettings
            (demoArticle\<lparr>Created := time_Date 2024 1 2 0 0 0 0\<rparr>) [] demoFS)
       = Some (Inr (time_Date 2024 1 2 0 0 0 0))
   \<and> map_sum id Created
         (FormatMarkdown demoArticleTemplate (demoArticle\<lparr>Created := time_Date 2024 1 2 0 0 0 0\<rparr>)
            demoSettings)
       = Inr (time_Date 2024 1 2 0 0 0 0)"
proof -
  let ?now = "time_Date 2026 11 3 0 0 0 0"
  define md where "md = MarkdownFile_article ''content/2024 05 06 post.md'' ''# hi'' ''<h1>hi</h1>''
        NoFrontmatter (Some ?now)"
  define ht where "ht = HTMLFile_article ''content/about.html'' demoSettings ''<html>'' ''hello''
        (Some demoDoc) (Some ?now)"
  define cp where "cp = CopyHtmlResources acceptAuthority demoSettings
            (demoArticle\<lparr>Created := time_Date 2024 1 2 0 0 0 0\<rparr>) [] demoFS"
  define fm where "fm = FormatMarkdown demoArticleTemplate
            (demoArticle\<lparr>Created := time_Date 2024 1 2 0 0 0 0\<rparr>) demoSettings"
  have "case md of Inr a \<Rightarrow> True | Inl e \<Rightarrow> False"
    unfolding md_def by code_simp
  then obtain a1 where r1: "md = Inr a1"
    by (cases md) auto
  have "case ht of Inr a \<Rightarrow> True | Inl e \<Rightarrow> False"
    unfolding ht_def by code_simp
  then obtain a2 where r2: "ht = Inr a2"
    by (cases ht) auto
  have "case map_option snd cp of Some (Inr a) \<Rightarrow> True | _ \<Rightarrow> False"
    unfolding cp_def by code_simp
  then obtain fs3 a3 where r3: "cp = Some (fs3, Inr a3)"
    by (cases cp) (auto split: sum.splits)
  have "case fm of Inr a \<Rightarrow> True | Inl e \<Rightarrow> False"
    unfolding fm_def by code_simp
  then obtain a4 where r4: "fm = Inr a4"
    by (cases fm) auto
  have src1: "dateSources ''content/2024 05 06 post.md'' NoFrontmatter ?now
       = [time_Date 2024 5 6 0 0 0 0, ?now]"
    by code_simp
  have src2: "htmlDateSources ''content/about.html'' demoDoc ?now = [time_Date 2024 1 2 0 0 0 0, ?now]"
    by code_simp
  have le: "time_Date 2024 5 6 0 0 0 0 \<le> ?now" "time_Date 2024 1 2 0 0 0 0 \<le> ?now"
    by code_simp+
  have v1: "map_sum id Created md = Inr (time_Date 2024 5 6 0 0 0 0)"
    unfolding md_def by code_simp
  have v2: "map_sum id Created ht = Inr (time_Date 2024 1 2 0 0 0 0)"
    unfolding ht_def by code_simp
  note c1 = C8_created_is_a_date_source [where path = "''content/2024 05 06 post.md''"
      and data = "''# hi''" and html = "''<h1>hi</h1>''" and fm = NoFrontmatter and modTime = ?now
      and article = a1 and now = ?now, THEN conjunct1, THEN mp, OF r1 [unfolded md_def]]
  note c2 = C8_created_is_a_date_source [where path = "''content/about.html''" and st = demoSettings
      and htmlContent = "''<html>''" and textContent = "''hello''" and doc = demoDoc
      and modTime = ?now and article = a2 and now = ?now,
      THEN conjunct2, THEN conjunct1, THEN mp, OF r2 [unfolded ht_def]]
  note c3 = C8_created_is_a_date_source [where ok = acceptAuthority and st = demoSettings
      and article = "demoArticle\<lparr>Created := time_Date 2024 1 2 0 0 0 0\<rparr>" and res = "[]"
      and fs = demoFS and fs' = fs3 and article' = a3,
      THEN conjunct2, THEN conjunct2, THEN conjunct1, THEN mp, OF r3 [unfolded cp_def]]
  note c4 = C8_created_is_a_date_source [where tmpl = demoArticleTemplate and st = demoSettings
      and article = "demoArticle\<lparr>Created := time_Date 2024 1 2 0 0 0 0\<rparr>" and article' = a4,
      THEN conjunct2, THEN conjunct2, THEN conjunct2, THEN mp, OF r4 [unfolded fm_def]]
  have b1: "Created a1 \<le> ?now"
    using c1 le unfolding src1 by simp
  have b2: "Created a2 \<le> ?now"
    using c2 le unfolding src2 by simp
  have 3: "map_option (map_sum id Created \<circ> snd) cp = Some (Inr (time_Date 2024 1 2 0 0 0 0))"
    using c3 r3 by simp
  have 4: "map_sum id Created fm = Inr (time_Date 2024 1 2 0 0 0 0)"
    using c4 r4 by simp
  show ?thesis
    using v1 v2 3 4 src1 src2 le b1 b2 unfolding md_def ht_def cp_def fm_def by simp
qed


section \<open>Properties of the feed and of the shared collection\<close>

lemma length_insertionSort: "length (insertionSort lt xs) = length xs"
  using mset_insertionSort [of lt xs] by (metis size_mset)

lemma readSlice_writeSlice:
  assumes "length xs = length (readSlice store s)"
  shows "readSlice (writeSlice store s xs) s = xs"
proof (cases "Len s \<le> length (store (Data s))")
  case True
  then have "length xs = Len s"
    using assms by (simp add: readSlice_def)
  then show ?thesis
    by (simp add: readSlice_def writeSlice_def)
next
  case False
  then have "length xs = length (store (Data s))" and "length xs \<le> Len s"
    using assms by (simp_all add: readSlice_def)
  then show ?thesis
    by (simp add: readSlice_def writeSlice_def)
qed

lemma writeSlice_elsewhere: "address \<noteq> Data s \<Longrightarrow> writeSlice store s xs address = store address"
  by (simp add: writeSlice_def)

lemma writeSlice_spare:
  assumes "length xs = length (readSlice store s)"
  shows "drop (Len s) (writeSlice store s xs (Data s)) = drop (Len s) (store (Data s))"
proof (cases "Len s \<le> length (store (Data s))")
  case True
  then have "length xs = Len s"
    using assms by (simp add: readSlice_def)
  then show ?thesis
    by (simp add: writeSlice_def)
next
  case False
  then have "length xs = length (store (Data s))" and "length xs \<le> Len s"
    using assms by (simp_all add: readSlice_def)
  then show ?thesis
    by (simp add: writeSlice_def)
qed

text \<open>The feed's comparison puts \<open>a\<close> before \<open>b\<close> when \<open>a\<close> was created later.\<close>

lemma feed_comparison:
  "(\<lambda>a b. Time_Compare (Created b) (Created a) < 0) = (\<lambda>a b. - Created a < - Created b)"
  by (auto simp: Time_Compare_def fun_eq_iff)

lemma descending_SortFunc:
  "sorted_wrt (\<lambda>a b. Created b \<le> Created a)
     (slices_SortFunc (\<lambda>a b. Time_Compare (Created b) (Created a)) xs)"
proof -
  have "sorted (map (\<lambda>a. - Created a) (insertionSort (\<lambda>a b. - Created a < - Created b) xs))"
    by (rule sorted_insertionSort)
  then show ?thesis
    by (simp add: slices_SortFunc_def feed_comparison sorted_map)
qed

text \<open>Insertion sort leaves alone a list in which no element is less than an earlier one.\<close>

lemma foldl_insertLeft_sorted:
  assumes "sorted_wrt (\<lambda>a b. \<not> lt b a) (rev acc @ xs)"
  shows "foldl (\<lambda>acc x. insertLeft lt x acc) acc xs = rev xs @ acc"
  using assms
proof (induction xs arbitrary: acc)
  case Nil
  then show ?case by simp
next
  case (Cons x xs)
  have ins: "insertLeft lt x acc = x # acc"
  proof (cases acc)
    case Nil
    then show ?thesis by simp
  next
    case (Cons y ys)
    then have "\<not> lt x y"
      using Cons.prems by (simp add: sorted_wrt_append)
    then show ?thesis
      using Cons by simp
  qed
  have "sorted_wrt (\<lambda>a b. \<not> lt b a) (rev (x # acc) @ xs)"
    using Cons.prems by simp
  from Cons.IH [OF this] show ?case
    by (simp add: ins)
qed

lemma insertionSort_sorted:
  "sorted_wrt (\<lambda>a b. \<not> lt b a) xs \<Longrightarrow> insertionSort lt xs = xs"
  using foldl_insertLeft_sorted [of lt "[]" xs] by (simp add: insertionSort_def)

lemma SortFunc_descending_id:
  assumes "sorted_wrt (\<lambda>a b. Created b \<le> Created a) xs"
  shows "slices_SortFunc (\<lambda>a b. Time_Compare (Created b) (Created a)) xs = xs"
proof -
  have "sorted_wrt (\<lambda>a b. \<not> Time_Compare (Created a) (Created b) < 0) xs"
    using assms by (rule sorted_wrt_mono_rel [rotated]) (auto simp: Time_Compare_def)
  then have "insertionSort (\<lambda>a b. Time_Compare (Created b) (Created a) < 0) xs = xs"
    by (rule insertionSort_sorted)
  then show ?thesis
    by (simp add: slices_SortFunc_def)
qed

lemma length_sortArticles: "length (sortArticles order xs) = length xs"
  by (simp add: sortArticles_def sort_Slice_def length_insertionSort)

lemma mset_sortArticles: "mset (sortArticles order xs) = mset xs"
  by (simp add: sortArticles_def sort_Slice_def mset_insertionSort)

lemma GenerateRSS_store:
  "fst (GenerateRSS tmpl buildDate store articles settings fs)
     = writeSlice store articles
         (slices_SortFunc (\<lambda>a b. Time_Compare (Created b) (Created a)) (readSlice store articles))"
  by (simp add: GenerateRSS_def Let_def split: option.splits sum.splits)

lemma GenerateRSS_collection:
  "readSlice (fst (GenerateRSS tmpl buildDate store articles settings fs)) articles
     = slices_SortFunc (\<lambda>a b. Time_Compare (Created b) (Created a)) (readSlice store articles)"
  by (simp add: GenerateRSS_store readSlice_writeSlice slices_SortFunc_def length_insertionSort)


lemma GenerateRSS_success:
  assumes "GenerateRSS tmpl buildDate store articles settings fs = (store', fs', Inr ())"
  shows "\<exists>tp. tmpl (readSlice store' articles) settings buildDate = Some tp
            \<and> os_WriteFile fs (filepath_Join [OutputPath settings, ''rss.xml'']) tp = Inr fs'"
  using assms
  by (auto simp: GenerateRSS_def Let_def split: option.splits sum.splits)

text \<open>
  Claim C9. When \<open>GenerateRSS\<close> succeeds, the list the feed template was executed on is
  the collection ordered from the latest creation date to the earliest, it holds the
  same articles as the collection handed in, in whatever order that was and whatever
  the settings say, and \<open>rss.xml\<close> in the output directory holds what the template
  made of it.
\<close>

theorem C9_feed_descending_by_created:
  assumes "GenerateRSS tmpl buildDate store articles settings fs = (store', fs', Inr ())"
  shows "sorted_wrt (\<lambda>a b. Created b \<le> Created a) (readSlice store' articles)
       \<and> mset (readSlice store' articles) = mset (readSlice store articles)
       \<and> (\<exists>tp. tmpl (readSlice store' articles) settings buildDate = Some tp
              \<and> os_ReadFile fs' (filepath_Join [OutputPath settings, ''rss.xml'']) = Inr tp)"
proof -
  have "store' = fst (GenerateRSS tmpl buildDate store articles settings fs)"
    by (simp add: assms)
  then have coll: "readSlice store' articles
      = slices_SortFunc (\<lambda>a b. Time_Compare (Created b) (Created a)) (readSlice store articles)"
    by (simp only: GenerateRSS_collection)
  have srt: "sorted_wrt (\<lambda>a b. Created b \<le> Created a) (readSlice store' articles)"
    unfolding coll by (rule descending_SortFunc)
  have perm: "mset (readSlice store' articles) = mset (readSlice store articles)"
    unfolding coll by (simp add: slices_SortFunc_def mset_insertionSort)
  from GenerateRSS_success [OF assms] obtain tp where
    tp: "tmpl (readSlice store' articles) settings buildDate = Some tp"
    and wr: "os_WriteFile fs (filepath_Join [OutputPath settings, ''rss.xml'']) tp = Inr fs'"
    by blast
  from os_WriteFile_then_ReadFile [OF wr] tp srt perm show ?thesis
    by blast
qed

theorem C9_feed_descending_by_created_witness:
  "snd (snd (GenerateRSS demoRssTemplate ''Tue, 03 Nov 2026 00:00:00 +0000'' demoStore demoSlice
       (demoSettings\<lparr>Sort := SortTitle\<rparr>) demoOutput)) = Inr ()
   \<and> map Title (readSlice demoStore demoSlice) = [''b'', ''c'', ''a'']
   \<and> map Title (readSlice (fst (GenerateRSS demoRssTemplate ''Tue, 03 Nov 2026 00:00:00 +0000''
          demoStore demoSlice (demoSettings\<lparr>Sort := SortTitle\<rparr>) demoOutput)) demoSlice)
       = [''c'', ''b'', ''a'']
   \<and> os_ReadFile (fst (snd (GenerateRSS demoRssTemplate ''Tue, 03 Nov 2026 00:00:00 +0000''
          demoStore demoSlice (demoSettings\<lparr>Sort := SortTitle\<rparr>) demoOutput))) ''public/rss.xml''
       = Inr ''<item>c</item><item>b</item><item>a</item>''"
proof -
  define run where "run = GenerateRSS demoRssTemplate ''Tue, 03 Nov 2026 00:00:00 +0000''
      demoStore demoSlice (demoSettings\<lparr>Sort := SortTitle\<rparr>) demoOutput"
  have ok: "snd (snd run) = Inr ()"
    unfolding run_def by code_simp
  then obtain store' fs' where r: "run = (store', fs', Inr ())"
    by (cases run) auto
  have before: "map Title (readSlice demoStore demoSlice) = [''b'', ''c'', ''a'']"
    by code_simp
  have after: "map Title (readSlice (fst run) demoSlice) = [''c'', ''b'', ''a'']"
    unfolding run_def by code_simp
  have doc: "os_ReadFile (fst (snd run)) ''public/rss.xml''
      = Inr ''<item>c</item><item>b</item><item>a</item>''"
    unfolding run_def by code_simp
  from C9_feed_descending_by_created [OF r [unfolded run_def]]
  have "sorted_wrt (\<lambda>a b. Created b \<le> Created a) (readSlice store' demoSlice)"
    by blast
  then show ?thesis
    using ok before after doc unfolding run_def by simp
qed

lemma buildWebsite_finish_store:
  assumes "buildWebsite_finish tmplIndex tmplRSS searchIndexJSON buildDate store articles settings fs
             = (store', fs', Inr ())"
  shows "store' = writeSlice (writeSlice store articles
             (sortArticles (Sort settings) (readSlice store articles))) articles
           (slices_SortFunc (\<lambda>a b. Time_Compare (Created b) (Created a))
              (sortArticles (Sort settings) (readSlice store articles)))"
proof -
  define store1 where
    "store1 = writeSlice store articles (sortArticles (Sort settings) (readSlice store articles))"
  have read1: "readSlice store1 articles = sortArticles (Sort settings) (readSlice store articles)"
    unfolding store1_def by (rule readSlice_writeSlice) (simp add: length_sortArticles)
  from assms obtain fs2 where
    "GenerateRSS tmplRSS buildDate store1 articles settings fs2 = (store', fs', Inr ())"
    unfolding buildWebsite_finish_def Let_def store1_def [symmetric]
    by (auto split: sum.splits prod.splits)
  then have "store' = fst (GenerateRSS tmplRSS buildDate store1 articles settings fs2)"
    by simp
  then show ?thesis
    by (simp add: GenerateRSS_store read1) (simp add: store1_def)
qed

text \<open>
  Claim C10 says that after the feed the shared collection no longer reflects the
  configured sort order. With the order \<open>date-created\<close> and articles of different
  dates the collection after the feed is the configured order itself.
\<close>

theorem C10_date_created_order_kept_counterexample:
  "snd (snd (buildWebsite_finish demoIndexTemplate demoRssTemplate ''[]''
       ''Tue, 03 Nov 2026 00:00:00 +0000'' demoStore demoSlice demoSettings demoOutput)) = Inr ()
   \<and> Sort demoSettings = SortDateCreated
   \<and> readSlice (fst (buildWebsite_finish demoIndexTemplate demoRssTemplate ''[]''
          ''Tue, 03 Nov 2026 00:00:00 +0000'' demoStore demoSlice demoSettings demoOutput)) demoSlice
       = sortArticles (Sort demoSettings) (readSlice demoStore demoSlice)"
  by code_simp

text \<open>
  Claim C10, amended. \<open>GenerateRSS\<close> sorts the shared array itself: when the build has
  generated the feed, the collection read through the orchestrator's slice runs from
  the latest creation date to the earliest and holds the same article values as
  before, each unchanged. It differs from the order the configured sort gave whenever
  that order did not already descend by creation date, and equals it when that order
  strictly descends by creation date. The spare capacity of the array and every other
  array of the store are untouched.
\<close>

theorem C10_shared_collection_after_feed:
  assumes "buildWebsite_finish tmplIndex tmplRSS searchIndexJSON buildDate store articles settings fs
             = (store', fs', Inr ())"
  shows "sorted_wrt (\<lambda>a b. Created b \<le> Created a) (readSlice store' articles)
       \<and> mset (readSlice store' articles) = mset (readSlice store articles)
       \<and> (\<not> sorted_wrt (\<lambda>a b. Created b \<le> Created a)
               (sortArticles (Sort settings) (readSlice store articles))
            \<longrightarrow> readSlice store' articles \<noteq> sortArticles (Sort settings) (readSlice store articles))
       \<and> (sorted_wrt (\<lambda>a b. Created b < Created a)
               (sortArticles (Sort settings) (readSlice store articles))
            \<longrightarrow> readSlice store' articles = sortArticles (Sort settings) (readSlice store articles))
       \<and> drop (Len articles) (store' (Data articles)) = drop (Len articles) (store (Data articles))
       \<and> (\<forall>address. address \<noteq> Data articles \<longrightarrow> store' address = store address)"
proof -
  define configured where "configured = sortArticles (Sort settings) (readSlice store articles)"
  define store1 where "store1 = writeSlice store articles configured"
  define feed where
    "feed = slices_SortFunc (\<lambda>a b. Time_Compare (Created b) (Created a)) configured"
  have store': "store' = writeSlice store1 articles feed"
    using buildWebsite_finish_store [OF assms] by (simp add: store1_def feed_def configured_def)
  have len1: "length configured = length (readSlice store articles)"
    by (simp add: configured_def length_sortArticles)
  have read1: "readSlice store1 articles = configured"
    unfolding store1_def using len1 by (rule readSlice_writeSlice)
  have len2: "length feed = length (readSlice store1 articles)"
    by (simp add: feed_def read1 slices_SortFunc_def length_insertionSort)
  have after: "readSlice store' articles = feed"
    unfolding store' using len2 by (rule readSlice_writeSlice)
  have srt: "sorted_wrt (\<lambda>a b. Created b \<le> Created a) feed"
    unfolding feed_def by (rule descending_SortFunc)
  have perm: "mset feed = mset (readSlice store articles)"
    by (simp add: feed_def slices_SortFunc_def mset_insertionSort configured_def mset_sortArticles)
  have differs: "\<not> sorted_wrt (\<lambda>a b. Created b \<le> Created a) configured \<longrightarrow> feed \<noteq> configured"
    using srt by auto
  have same: "sorted_wrt (\<lambda>a b. Created b < Created a) configured \<longrightarrow> feed = configured"
  proof
    assume "sorted_wrt (\<lambda>a b. Created b < Created a) configured"
    then have "sorted_wrt (\<lambda>a b. Created b \<le> Created a) configured"
      by (rule sorted_wrt_mono_rel [rotated]) simp
    then show "feed = configured"
      unfolding feed_def by (rule SortFunc_descending_id)
  qed
  have spare: "drop (Len articles) (store' (Data articles)) = drop (Len articles) (store (Data articles))"
    using writeSlice_spare [OF len2] writeSlice_spare [OF len1]
    by (simp add: store' store1_def)
  have others: "\<forall>address. address \<noteq> Data articles \<longrightarrow> store' address = store address"
    by (simp add: store' store1_def writeSlice_elsewhere)
  show ?thesis
    using srt perm differs same spare others
    unfolding after configured_def [symmetric] by blast
qed

theorem C10_shared_collection_after_feed_witness:
  "snd (snd (buildWebsite_finish demoIndexTemplate demoRssTemplate ''[]''
       ''Tue, 03 Nov 2026 00:00:00 +0000'' demoStore demoSlice
       (demoSettings\<lparr>Sort := SortTitle\<rparr>) demoOutput)) = Inr ()
   \<and> map Title (sortArticles SortTitle (readSlice demoStore demoSlice)) = [''a'', ''b'', ''c'']
   \<and> map Title (readSlice (fst (buildWebsite_finish demoIndexTemplate demoRssTemplate ''[]''
          ''Tue, 03 Nov 2026 00:00:00 +0000'' demoStore demoSlice
          (demoSettings\<lparr>Sort := SortTitle\<rparr>) demoOutput)) demoSlice) = [''c'', ''b'', ''a'']
   \<and> \<not> sorted_wrt (\<lambda>a b. Created b \<le> Created a)
         (sortArticles SortTitle (readSlice demoStore demoSlice))
   \<and> (3::nat) \<noteq> Data demoSlice
   \<and> fst (buildWebsite_finish demoIndexTemplate demoRssTemplate ''[]''
          ''Tue, 03 Nov 2026 00:00:00 +0000'' demoStore demoSlice
          (demoSettings\<lparr>Sort := SortTitle\<rparr>) demoOutput) 3 = demoStore 3
   \<and> snd (snd (buildWebsite_finish demoIndexTemplate demoRssTemplate ''[]''
       ''Tue, 03 Nov 2026 00:00:00 +0000'' demoStore demoSlice
       (demoSettings\<lparr>Sort := SortDateCreated\<rparr>) demoOutput)) = Inr ()
   \<and> sorted_wrt (\<lambda>a b. Created b < Created a)
         (sortArticles SortDateCreated (readSlice demoStore demoSlice))
   \<and> map Title (readSlice (fst (buildWebsite_finish demoIndexTemplate demoRssTemplate ''[]''
          ''Tue, 03 Nov 2026 00:00:00 +0000'' demoStore demoSlice
          (demoSettings\<lparr>Sort := SortDateCreated\<rparr>) demoOutput)) demoSlice)
       = map Title (sortArticles SortDateCreated (readSlice demoStore demoSlice))"
proof -
  define run where "run = buildWebsite_finish demoIndexTemplate demoRssTemplate ''[]''
       ''Tue, 03 Nov 2026 00:00:00 +0000'' demoStore demoSlice
       (demoSettings\<lparr>Sort := SortTitle\<rparr>) demoOutput"
  define run2 where "run2 = buildWebsite_finish demoIndexTemplate demoRssTemplate ''[]''
       ''Tue, 03 Nov 2026 00:00:00 +0000'' demoStore demoSlice
       (demoSettings\<lparr>Sort := SortDateCreated\<rparr>) demoOutput"
  have ok: "snd (snd run) = Inr ()"
    unfolding run_def by code_simp
  then obtain store' fs' where r: "run = (store', fs', Inr ())"
    by (cases run) auto
  have ok2: "snd (snd run2) = Inr ()"
    unfolding run2_def by code_simp
  then obtain store2 fs2 where r2: "run2 = (store2, fs2, Inr ())"
    by (cases run2) auto
  have configured: "map Title (sortArticles SortTitle (readSlice demoStore demoSlice)) = [''a'', ''b'', ''c'']"
    by code_simp
  have after: "map Title (readSlice (fst run) demoSlice) = [''c'', ''b'', ''a'']"
    unfolding run_def by code_simp
  have unsorted: "\<not> sorted_wrt (\<lambda>a b. Created b \<le> Created a)
         (sortArticles SortTitle (readSlice demoStore demoSlice))"
    by code_simp
  have strict: "sorted_wrt (\<lambda>a b. Created b < Created a)
         (sortArticles SortDateCreated (readSlice demoStore demoSlice))"
    by code_simp
  have other: "(3::nat) \<noteq> Data demoSlice"
    by (simp add: demoSlice_def)
  from C10_shared_collection_after_feed [OF r [unfolded run_def]] unsorted other
  have one: "readSlice store' demoSlice \<noteq> sortArticles SortTitle (readSlice demoStore demoSlice)
      \<and> store' 3 = demoStore 3"
    by simp
  from C10_shared_collection_after_feed [OF r2 [unfolded run2_def]] strict
  have two: "readSlice store2 demoSlice = sortArticles SortDateCreated (readSlice demoStore demoSlice)"
    by simp
  have "fst run 3 = demoStore 3"
    using one r by simp
  moreover have "map Title (readSlice (fst run2) demoSlice)
      = map Title (sortArticles SortDateCreated (readSlice demoStore demoSlice))"
    using two r2 by simp
  ultimately show ?thesis
    using ok ok2 configured after unsorted strict other unfolding run_def run2_def by simp
qed


end
